theory Spec2Isabelle
  imports Main
begin

section \<open>Memory, element type and outcomes\<close>

text \<open>
  The container of \<^verbatim>\<open>vector.h\<close> works on raw storage obtained from
  \<^verbatim>\<open>operator new\<close>. A pointer \<^verbatim>\<open>T*\<close> is a pair of a block number and an
  offset counted in elements; block \<open>0\<close> is never handed out, so \<open>(0, 0)\<close> is the null
  pointer. Each allocated block is a list of slots; a slot is either raw storage or holds
  a constructed object. \<^verbatim>\<open>size_t\<close> is modelled by \<open>nat\<close>: the
  multiplications \<^verbatim>\<open>n * sizeof(T)\<close> and \<^verbatim>\<open>size_ * 2\<close> are taken without
  wrap-around, and a subtraction that would wrap is written out as undefined behaviour.
\<close>

type_synonym ptr = "nat \<times> nat"

definition nullptr :: ptr where
  "nullptr = (0, 0)"

definition ptr_add :: "ptr \<Rightarrow> nat \<Rightarrow> ptr" where
  "ptr_add p k = (fst p, snd p + k)"

datatype 'a slot = Raw | Live 'a

datatype event =
    Allocated nat nat
  | Deallocated nat
  | Constructed ptr
  | ValueConstructed ptr
  | CopyConstructed ptr ptr
  | MoveConstructed ptr ptr
  | CopyAssigned ptr ptr
  | MoveAssigned ptr ptr
  | TempAssigned ptr
  | Destroyed ptr

text \<open>
  \<^verbatim>\<open>class RawMemory\<close> has the fields \<^verbatim>\<open>buffer_\<close> and \<^verbatim>\<open>capacity_\<close>,
  \<^verbatim>\<open>class Vector\<close> the fields \<^verbatim>\<open>data_\<close> and \<^verbatim>\<open>size_\<close>.
\<close>

record RawMemory =
  buffer_f :: ptr
  capacity_f :: nat

record Vector =
  data_f :: RawMemory
  size_f :: nat

text \<open>
  The world: the raw blocks, the \<^verbatim>\<open>Vector\<close> objects by address (so that
  \<^verbatim>\<open>this == &other\<close> is equality of addresses), the next fresh block number, the
  number of fallible operations performed so far, and the trace of the successful
  allocations, deallocations, constructor, assignment and destructor calls.
\<close>

record 'a world =
  heap :: "nat \<rightharpoonup> 'a slot list"
  objects :: "nat \<rightharpoonup> Vector"
  next_block :: nat
  ticks :: nat
  trace :: "event list"

text \<open>
  What the template is instantiated with: the two type traits \<^verbatim>\<open>MoveElements\<close>
  branches on, the value of a value-initialised element, the state a moved-from element is
  left in, and the schedule of failures: the \<open>k\<close>-th fallible operation (an allocation, a
  constructor that may throw, an assignment) throws iff \<open>throws_at T k\<close>. A move constructor of
  a type with \<open>is_nothrow_move_constructible\<close> is not fallible; destructors and
  deallocation never throw.
\<close>

record 'a env =
  is_nothrow_move_constructible :: bool
  is_copy_constructible :: bool
  value_initialized :: 'a
  moved_from :: "'a \<Rightarrow> 'a"
  throws_at :: "nat \<Rightarrow> bool"

datatype exn = bad_alloc | element_failure

text \<open>
  An operation returns normally, throws, or has undefined behaviour (an access outside a
  block, the use of a slot that holds no object, construction over a live object, the
  difference of pointers into different blocks, a violated \<^verbatim>\<open>assert\<close>); in the last
  case the world is the one in which the offending step was attempted.
\<close>

datatype 'r outcome = Ok 'r | Throw exn | Undefined

type_synonym ('a, 'r) prog = "'a world \<Rightarrow> 'r outcome \<times> 'a world"

definition ret :: "'r \<Rightarrow> ('a, 'r) prog" where
  "ret r w = (Ok r, w)"

definition throw :: "exn \<Rightarrow> ('a, 'r) prog" where
  "throw e w = (Throw e, w)"

definition undef :: "('a, 'r) prog" where
  "undef w = (Undefined, w)"

definition seq :: "('a, 'r) prog \<Rightarrow> ('r \<Rightarrow> ('a, 'q) prog) \<Rightarrow> ('a, 'q) prog" where
  "seq m k w =
     (case m w of
        (Ok r, w') \<Rightarrow> k r w'
      | (Throw e, w') \<Rightarrow> (Throw e, w')
      | (Undefined, w') \<Rightarrow> (Undefined, w'))"

text \<open>
  \<^verbatim>\<open>try { m } catch (...) { h; throw; }\<close>, also used for the destructor of a local
  object that runs while an exception unwinds the stack.
\<close>

definition try_catch_rethrow :: "('a, 'r) prog \<Rightarrow> ('a, unit) prog \<Rightarrow> ('a, 'r) prog" where
  "try_catch_rethrow m h w =
     (case m w of
        (Throw e, w') \<Rightarrow> seq h (\<lambda>_. throw e) w'
      | other \<Rightarrow> other)"

definition assert_that :: "bool \<Rightarrow> ('a, unit) prog" where
  "assert_that b = (if b then ret () else undef)"

definition slot_at :: "'a world \<Rightarrow> ptr \<Rightarrow> 'a slot option" where
  "slot_at w p =
     (case heap w (fst p) of
        None \<Rightarrow> None
      | Some ss \<Rightarrow> if snd p < length ss then Some (ss ! snd p) else None)"

definition set_slot :: "ptr \<Rightarrow> 'a slot \<Rightarrow> 'a world \<Rightarrow> 'a world" where
  "set_slot p s w =
     (case heap w (fst p) of
        None \<Rightarrow> w
      | Some ss \<Rightarrow> w\<lparr>heap := (heap w)(fst p \<mapsto> ss[snd p := s])\<rparr>)"

definition emit :: "event \<Rightarrow> 'a world \<Rightarrow> 'a world" where
  "emit e w = w\<lparr>trace := trace w @ [e]\<rparr>"

definition tick :: "'a env \<Rightarrow> exn \<Rightarrow> ('a, unit) prog" where
  "tick T e w =
     (if throws_at T (ticks w) then (Throw e, w\<lparr>ticks := Suc (ticks w)\<rparr>)
      else (Ok (), w\<lparr>ticks := Suc (ticks w)\<rparr>))"

section \<open>Operations on single elements\<close>

text \<open>\<^verbatim>\<open>new (p) T(std::forward<Types>(args)...)\<close>, the arguments constructing the value \<open>x\<close>.\<close>

definition construct_at :: "'a env \<Rightarrow> ptr \<Rightarrow> 'a \<Rightarrow> ('a, unit) prog" where
  "construct_at T p x w =
     (case slot_at w p of
        Some Raw \<Rightarrow>
          seq (tick T element_failure)
            (\<lambda>_ w'. (Ok (), emit (Constructed p) (set_slot p (Live x) w'))) w
      | _ \<Rightarrow> (Undefined, w))"

definition value_construct_at :: "'a env \<Rightarrow> ptr \<Rightarrow> ('a, unit) prog" where
  "value_construct_at T p w =
     (case slot_at w p of
        Some Raw \<Rightarrow>
          seq (tick T element_failure)
            (\<lambda>_ w'. (Ok (), emit (ValueConstructed p)
                               (set_slot p (Live (value_initialized T)) w'))) w
      | _ \<Rightarrow> (Undefined, w))"

definition copy_construct :: "'a env \<Rightarrow> ptr \<Rightarrow> ptr \<Rightarrow> ('a, unit) prog" where
  "copy_construct T src dst w =
     (case (slot_at w src, slot_at w dst) of
        (Some (Live x), Some Raw) \<Rightarrow>
          seq (tick T element_failure)
            (\<lambda>_ w'. (Ok (), emit (CopyConstructed src dst) (set_slot dst (Live x) w'))) w
      | _ \<Rightarrow> (Undefined, w))"

definition move_construct :: "'a env \<Rightarrow> ptr \<Rightarrow> ptr \<Rightarrow> ('a, unit) prog" where
  "move_construct T src dst w =
     (case (slot_at w src, slot_at w dst) of
        (Some (Live x), Some Raw) \<Rightarrow>
          seq (if is_nothrow_move_constructible T then ret () else tick T element_failure)
            (\<lambda>_ w'. (Ok (), emit (MoveConstructed src dst)
                               (set_slot src (Live (moved_from T x))
                                  (set_slot dst (Live x) w')))) w
      | _ \<Rightarrow> (Undefined, w))"

definition copy_assign :: "'a env \<Rightarrow> ptr \<Rightarrow> ptr \<Rightarrow> ('a, unit) prog" where
  "copy_assign T src dst w =
     (case (slot_at w src, slot_at w dst) of
        (Some (Live x), Some (Live y)) \<Rightarrow>
          seq (tick T element_failure)
            (\<lambda>_ w'. (Ok (), emit (CopyAssigned src dst) (set_slot dst (Live x) w'))) w
      | _ \<Rightarrow> (Undefined, w))"

definition move_assign :: "'a env \<Rightarrow> ptr \<Rightarrow> ptr \<Rightarrow> ('a, unit) prog" where
  "move_assign T src dst w =
     (case (slot_at w src, slot_at w dst) of
        (Some (Live x), Some (Live y)) \<Rightarrow>
          seq (tick T element_failure)
            (\<lambda>_ w'. (Ok (), emit (MoveAssigned src dst)
                               (set_slot src (Live (moved_from T x))
                                  (set_slot dst (Live x) w')))) w
      | _ \<Rightarrow> (Undefined, w))"

text \<open>
  \<^verbatim>\<open>T temp(std::forward<Types>(args)...)\<close> and \<^verbatim>\<open>data_[index] = std::move(temp)\<close>:
  the temporary lives on the stack, so only its value is kept.
\<close>

definition construct_temp :: "'a env \<Rightarrow> 'a \<Rightarrow> ('a, 'a) prog" where
  "construct_temp T x = seq (tick T element_failure) (\<lambda>_. ret x)"

definition move_assign_temp :: "'a env \<Rightarrow> 'a \<Rightarrow> ptr \<Rightarrow> ('a, unit) prog" where
  "move_assign_temp T x dst w =
     (case slot_at w dst of
        Some (Live y) \<Rightarrow>
          seq (tick T element_failure)
            (\<lambda>_ w'. (Ok (), emit (TempAssigned dst) (set_slot dst (Live x) w'))) w
      | _ \<Rightarrow> (Undefined, w))"

definition destroy_at :: "ptr \<Rightarrow> ('a, unit) prog" where
  "destroy_at p w =
     (case slot_at w p of
        Some (Live x) \<Rightarrow> (Ok (), emit (Destroyed p) (set_slot p Raw w))
      | _ \<Rightarrow> (Undefined, w))"

section \<open>The algorithms of the standard library the container calls\<close>

fun destroy_n :: "ptr \<Rightarrow> nat \<Rightarrow> ('a, unit) prog" where
  "destroy_n first 0 = ret ()"
| "destroy_n first (Suc n) = seq (destroy_at first) (\<lambda>_. destroy_n (ptr_add first 1) n)"

text \<open>
  The three \<^verbatim>\<open>std::uninitialized_..._n\<close> algorithms share one loop: construct the
  elements in order and, when a constructor throws, destroy the ones already constructed
  and rethrow.
\<close>

fun construct_loop ::
  "(nat \<Rightarrow> ('a, unit) prog) \<Rightarrow> ptr \<Rightarrow> nat \<Rightarrow> nat \<Rightarrow> ('a, unit) prog" where
  "construct_loop step d_first i 0 w = (Ok (), w)"
| "construct_loop step d_first i (Suc k) w =
     (case step i w of
        (Ok _, w1) \<Rightarrow> construct_loop step d_first (Suc i) k w1
      | (Throw e, w1) \<Rightarrow> seq (destroy_n d_first i) (\<lambda>_. throw e) w1
      | (Undefined, w1) \<Rightarrow> (Undefined, w1))"

definition uninitialized_value_construct_n :: "'a env \<Rightarrow> ptr \<Rightarrow> nat \<Rightarrow> ('a, unit) prog" where
  "uninitialized_value_construct_n T first n =
     construct_loop (\<lambda>i. value_construct_at T (ptr_add first i)) first 0 n"

definition uninitialized_copy_n :: "'a env \<Rightarrow> ptr \<Rightarrow> nat \<Rightarrow> ptr \<Rightarrow> ('a, unit) prog" where
  "uninitialized_copy_n T first n d_first =
     construct_loop (\<lambda>i. copy_construct T (ptr_add first i) (ptr_add d_first i)) d_first 0 n"

definition uninitialized_move_n :: "'a env \<Rightarrow> ptr \<Rightarrow> nat \<Rightarrow> ptr \<Rightarrow> ('a, unit) prog" where
  "uninitialized_move_n T first n d_first =
     construct_loop (\<lambda>i. move_construct T (ptr_add first i) (ptr_add d_first i)) d_first 0 n"

text \<open>\<^verbatim>\<open>std::move(first, first + n, d_first)\<close>: move-assignment, front to back.\<close>

fun move_range :: "'a env \<Rightarrow> ptr \<Rightarrow> nat \<Rightarrow> ptr \<Rightarrow> ('a, unit) prog" where
  "move_range T first 0 d_first = ret ()"
| "move_range T first (Suc n) d_first =
     seq (move_assign T first d_first)
       (\<lambda>_. move_range T (ptr_add first 1) n (ptr_add d_first 1))"

text \<open>
  \<^verbatim>\<open>std::move_backward(first, first + n, d_last)\<close>: move-assignment, back to front;
  both pointers are decremented before each assignment.
\<close>

fun move_backward :: "'a env \<Rightarrow> ptr \<Rightarrow> nat \<Rightarrow> ptr \<Rightarrow> ('a, unit) prog" where
  "move_backward T first 0 d_last = ret ()"
| "move_backward T first (Suc n) d_last =
     (if snd d_last = 0 then undef
      else seq (move_assign T (ptr_add first n) (fst d_last, snd d_last - 1))
             (\<lambda>_. move_backward T first n (fst d_last, snd d_last - 1)))"

text \<open>Pointer difference \<^verbatim>\<open>p - q\<close> converted to \<^verbatim>\<open>size_t\<close>.\<close>

definition ptr_diff :: "ptr \<Rightarrow> ptr \<Rightarrow> ('a, nat) prog" where
  "ptr_diff p q =
     (if fst p = fst q \<and> snd q \<le> snd p then ret (snd p - snd q) else undef)"

section \<open>RawMemory\<close>

definition operator_new :: "'a env \<Rightarrow> nat \<Rightarrow> ('a, ptr) prog" where
  "operator_new T n =
     seq (tick T bad_alloc)
       (\<lambda>_ w. (Ok (next_block w, 0),
               emit (Allocated (next_block w) n)
                 (w\<lparr>heap := (heap w)(next_block w \<mapsto> replicate n Raw),
                    next_block := Suc (next_block w)\<rparr>)))"

definition operator_delete :: "ptr \<Rightarrow> ('a, unit) prog" where
  "operator_delete buf w =
     (if buf = nullptr then (Ok (), w)
      else if snd buf = 0 \<and> heap w (fst buf) \<noteq> None
      then (Ok (), emit (Deallocated (fst buf)) (w\<lparr>heap := (heap w)(fst buf := None)\<rparr>))
      else (Undefined, w))"

definition Allocate :: "'a env \<Rightarrow> nat \<Rightarrow> ('a, ptr) prog" where
  "Allocate T n = (if n \<noteq> 0 then operator_new T n else ret nullptr)"

definition Deallocate :: "ptr \<Rightarrow> ('a, unit) prog" where
  "Deallocate buf = operator_delete buf"

definition RawMemory_default :: RawMemory where
  "RawMemory_default = \<lparr>buffer_f = nullptr, capacity_f = 0\<rparr>"

definition RawMemory_ctor :: "'a env \<Rightarrow> nat \<Rightarrow> ('a, RawMemory) prog" where
  "RawMemory_ctor T capacity =
     seq (Allocate T capacity) (\<lambda>b. ret \<lparr>buffer_f = b, capacity_f = capacity\<rparr>)"

definition RawMemory_dtor :: "RawMemory \<Rightarrow> ('a, unit) prog" where
  "RawMemory_dtor m = Deallocate (buffer_f m)"

text \<open>
  \<^verbatim>\<open>RawMemory::operator=(RawMemory&&)\<close> assigns both fields from \<open>other\<close> and resets
  \<open>other\<close>; it returns the new values of \<open>*this\<close> and of \<open>other\<close>. Nothing is done with
  the block \<open>*this\<close> held before.
\<close>

definition RawMemory_move_assign :: "RawMemory \<Rightarrow> RawMemory \<Rightarrow> RawMemory \<times> RawMemory" where
  "RawMemory_move_assign this other =
     (this\<lparr>buffer_f := buffer_f other, capacity_f := capacity_f other\<rparr>,
      other\<lparr>buffer_f := nullptr, capacity_f := 0\<rparr>)"

definition RawMemory_move_ctor :: "RawMemory \<Rightarrow> RawMemory \<times> RawMemory" where
  "RawMemory_move_ctor other =
     (\<lparr>buffer_f = buffer_f other, capacity_f = capacity_f other\<rparr>,
      other\<lparr>buffer_f := nullptr, capacity_f := 0\<rparr>)"

text \<open>
  \<^verbatim>\<open>operator+\<close> and \<^verbatim>\<open>operator[]\<close> compute an address; their assertions
  (\<^verbatim>\<open>offset <= capacity_\<close>, \<^verbatim>\<open>index < capacity_\<close>) are compiled out under
  \<^verbatim>\<open>NDEBUG\<close>, and an address outside the block is undefined behaviour as soon
  as it is used.
\<close>

definition RawMemory_plus :: "RawMemory \<Rightarrow> nat \<Rightarrow> ptr" where
  "RawMemory_plus m offset = ptr_add (buffer_f m) offset"

definition RawMemory_index :: "RawMemory \<Rightarrow> nat \<Rightarrow> ptr" where
  "RawMemory_index m index = ptr_add (buffer_f m) index"

definition RawMemory_Swap :: "RawMemory \<Rightarrow> RawMemory \<Rightarrow> RawMemory \<times> RawMemory" where
  "RawMemory_Swap this other =
     (this\<lparr>buffer_f := buffer_f other, capacity_f := capacity_f other\<rparr>,
      other\<lparr>buffer_f := buffer_f this, capacity_f := capacity_f this\<rparr>)"

definition GetAddress :: "RawMemory \<Rightarrow> ptr" where
  "GetAddress m = buffer_f m"

definition RawMemory_Capacity :: "RawMemory \<Rightarrow> nat" where
  "RawMemory_Capacity m = capacity_f m"

section \<open>Vector\<close>

definition with_object :: "nat \<Rightarrow> (Vector \<Rightarrow> ('a, 'r) prog) \<Rightarrow> ('a, 'r) prog" where
  "with_object a k w = (case objects w a of None \<Rightarrow> (Undefined, w) | Some v \<Rightarrow> k v w)"

definition put_object :: "nat \<Rightarrow> Vector \<Rightarrow> ('a, unit) prog" where
  "put_object a v w = (Ok (), w\<lparr>objects := (objects w)(a \<mapsto> v)\<rparr>)"

definition update_object :: "nat \<Rightarrow> (Vector \<Rightarrow> Vector) \<Rightarrow> ('a, unit) prog" where
  "update_object a f = with_object a (\<lambda>v. put_object a (f v))"

definition remove_object :: "nat \<Rightarrow> ('a, unit) prog" where
  "remove_object a w = (Ok (), w\<lparr>objects := (objects w)(a := None)\<rparr>)"

text \<open>The \<^verbatim>\<open>const\<close> accessors read the fields of the object only.\<close>

definition Vector_Size :: "Vector \<Rightarrow> nat" where
  "Vector_Size v = size_f v"

definition Vector_Capacity :: "Vector \<Rightarrow> nat" where
  "Vector_Capacity v = RawMemory_Capacity (data_f v)"

definition Vector_index :: "Vector \<Rightarrow> nat \<Rightarrow> ptr" where
  "Vector_index v index = RawMemory_index (data_f v) index"

definition Vector_begin :: "Vector \<Rightarrow> ptr" where
  "Vector_begin v = GetAddress (data_f v)"

definition Vector_end :: "Vector \<Rightarrow> ptr" where
  "Vector_end v = RawMemory_plus (data_f v) (size_f v)"

text \<open>
  \<^verbatim>\<open>MoveElements(from, size, to)\<close>: the \<^verbatim>\<open>if constexpr\<close> chooses between
  \<^verbatim>\<open>std::uninitialized_move_n\<close> and \<^verbatim>\<open>std::uninitialized_copy_n\<close>, then the
  source range is destroyed.
\<close>

definition MoveElements :: "'a env \<Rightarrow> ptr \<Rightarrow> nat \<Rightarrow> ptr \<Rightarrow> ('a, unit) prog" where
  "MoveElements T from_p count to_p =
     seq (if is_nothrow_move_constructible T \<or> \<not> is_copy_constructible T
          then uninitialized_move_n T from_p count to_p
          else uninitialized_copy_n T from_p count to_p)
       (\<lambda>_. destroy_n from_p count)"

subsection \<open>Constructors and destructor\<close>

text \<open>
  A constructor builds the value of the new object; \<open>Vector_ctor_...\<close> places it at the
  address \<open>this\<close>. When the body of a constructor throws, the member \<^verbatim>\<open>data_\<close>, already
  constructed, is destructed.
\<close>

definition Vector_default :: Vector where
  "Vector_default = \<lparr>data_f = RawMemory_default, size_f = 0\<rparr>"

definition Vector_ctor :: "nat \<Rightarrow> ('a, unit) prog" where
  "Vector_ctor this = put_object this Vector_default"

definition Vector_sized :: "'a env \<Rightarrow> nat \<Rightarrow> ('a, Vector) prog" where
  "Vector_sized T n =
     seq (RawMemory_ctor T n) (\<lambda>d.
     seq (try_catch_rethrow
            (uninitialized_value_construct_n T (GetAddress d) n)
            (RawMemory_dtor d)) (\<lambda>_.
     ret \<lparr>data_f = d, size_f = n\<rparr>))"

definition Vector_ctor_sized :: "'a env \<Rightarrow> nat \<Rightarrow> nat \<Rightarrow> ('a, unit) prog" where
  "Vector_ctor_sized T this n = seq (Vector_sized T n) (put_object this)"

definition Vector_copy :: "'a env \<Rightarrow> Vector \<Rightarrow> ('a, Vector) prog" where
  "Vector_copy T other =
     seq (RawMemory_ctor T (Vector_Size other)) (\<lambda>d.
     seq (try_catch_rethrow
            (uninitialized_copy_n T (GetAddress (data_f other)) (Vector_Size other) (GetAddress d))
            (RawMemory_dtor d)) (\<lambda>_.
     ret \<lparr>data_f = d, size_f = Vector_Size other\<rparr>))"

definition Vector_ctor_copy :: "'a env \<Rightarrow> nat \<Rightarrow> nat \<Rightarrow> ('a, unit) prog" where
  "Vector_ctor_copy T this other =
     with_object other (\<lambda>other_v. seq (Vector_copy T other_v) (put_object this))"

definition Vector_ctor_move :: "nat \<Rightarrow> nat \<Rightarrow> ('a, unit) prog" where
  "Vector_ctor_move this other =
     with_object other (\<lambda>other_v.
       case RawMemory_move_ctor (data_f other_v) of (d, other_d) \<Rightarrow>
         seq (put_object other \<lparr>data_f = other_d, size_f = 0\<rparr>) (\<lambda>_.
         put_object this \<lparr>data_f = d, size_f = size_f other_v\<rparr>))"

definition Vector_destroy :: "Vector \<Rightarrow> ('a, unit) prog" where
  "Vector_destroy v =
     seq (destroy_n (GetAddress (data_f v)) (size_f v)) (\<lambda>_. RawMemory_dtor (data_f v))"

definition Vector_dtor :: "nat \<Rightarrow> ('a, unit) prog" where
  "Vector_dtor this =
     with_object this (\<lambda>v. seq (Vector_destroy v) (\<lambda>_. remove_object this))"

subsection \<open>Swap and assignment\<close>

definition Vector_Swap :: "Vector \<Rightarrow> Vector \<Rightarrow> Vector \<times> Vector" where
  "Vector_Swap this other =
     (case RawMemory_Swap (data_f this) (data_f other) of
        (d, other_d) \<Rightarrow>
          (\<lparr>data_f = d, size_f = size_f other\<rparr>, \<lparr>data_f = other_d, size_f = size_f this\<rparr>))"

definition Swap :: "nat \<Rightarrow> nat \<Rightarrow> ('a, unit) prog" where
  "Swap this other =
     with_object this (\<lambda>v. with_object other (\<lambda>other_v.
       case Vector_Swap v other_v of
         (v', other_v') \<Rightarrow> seq (put_object other other_v') (\<lambda>_. put_object this v')))"

fun copy_assign_loop :: "'a env \<Rightarrow> Vector \<Rightarrow> Vector \<Rightarrow> nat \<Rightarrow> nat \<Rightarrow> ('a, unit) prog" where
  "copy_assign_loop T v other i 0 = ret ()"
| "copy_assign_loop T v other i (Suc k) =
     seq (copy_assign T (Vector_index other i) (RawMemory_index (data_f v) i))
       (\<lambda>_. copy_assign_loop T v other (Suc i) k)"

text \<open>
  \<^verbatim>\<open>Vector::operator=(const Vector&)\<close>. In the first branch the local
  \<^verbatim>\<open>new_vector\<close> is destructed on return, after the swap.
\<close>

definition operator_assign_copy :: "'a env \<Rightarrow> nat \<Rightarrow> nat \<Rightarrow> ('a, unit) prog" where
  "operator_assign_copy T this other =
     (if this = other then ret ()
      else with_object this (\<lambda>v. with_object other (\<lambda>other_v.
        if RawMemory_Capacity (data_f v) < size_f other_v then
          seq (Vector_copy T other_v) (\<lambda>new_vector.
          case Vector_Swap v new_vector of
            (v', new_vector') \<Rightarrow>
              seq (put_object this v') (\<lambda>_. Vector_destroy new_vector'))
        else
          seq (copy_assign_loop T v other_v 0 (min (size_f v) (size_f other_v))) (\<lambda>_.
          seq (if size_f v < size_f other_v then
                 uninitialized_copy_n T
                   (ptr_add (GetAddress (data_f other_v)) (size_f v))
                   (size_f other_v - size_f v)
                   (ptr_add (GetAddress (data_f v)) (size_f v))
               else
                 destroy_n (ptr_add (GetAddress (data_f v)) (size_f v))
                   (size_f v - size_f other_v)) (\<lambda>_.
          put_object this (v\<lparr>size_f := size_f other_v\<rparr>))))))"

text \<open>
  \<^verbatim>\<open>Vector::operator=(Vector&&)\<close>: the four assignments in order, each through the
  store, so that \<open>this = other\<close> behaves as in the source.
\<close>

definition operator_assign_move :: "nat \<Rightarrow> nat \<Rightarrow> ('a, unit) prog" where
  "operator_assign_move this other =
     with_object this (\<lambda>v. with_object other (\<lambda>other_v.
       case RawMemory_move_assign (data_f v) (data_f other_v) of
         (d, other_d) \<Rightarrow>
           seq (put_object this (v\<lparr>data_f := d\<rparr>)) (\<lambda>_.
           seq (update_object other (\<lambda>u. u\<lparr>data_f := other_d\<rparr>)) (\<lambda>_.
           with_object other (\<lambda>other_v'.
           seq (update_object this (\<lambda>u. u\<lparr>size_f := size_f other_v'\<rparr>)) (\<lambda>_.
           update_object other (\<lambda>u. u\<lparr>size_f := 0\<rparr>)))))))"

subsection \<open>Reserve and Resize\<close>

definition Reserve :: "'a env \<Rightarrow> nat \<Rightarrow> nat \<Rightarrow> ('a, unit) prog" where
  "Reserve T this new_capacity =
     with_object this (\<lambda>v.
       if new_capacity \<le> RawMemory_Capacity (data_f v) then ret ()
       else
         seq (RawMemory_ctor T new_capacity) (\<lambda>new_data.
         seq (try_catch_rethrow
                (MoveElements T (GetAddress (data_f v)) (size_f v) (GetAddress new_data))
                (RawMemory_dtor new_data)) (\<lambda>_.
         case RawMemory_Swap (data_f v) new_data of
           (d, new_data') \<Rightarrow>
             seq (put_object this (v\<lparr>data_f := d\<rparr>)) (\<lambda>_. RawMemory_dtor new_data'))))"

definition Resize :: "'a env \<Rightarrow> nat \<Rightarrow> nat \<Rightarrow> ('a, unit) prog" where
  "Resize T this new_size =
     with_object this (\<lambda>v.
       if size_f v = new_size then ret ()
       else
         seq (if size_f v > new_size then
                destroy_n (ptr_add (GetAddress (data_f v)) new_size) (size_f v - new_size)
              else
                seq (Reserve T this new_size) (\<lambda>_.
                with_object this (\<lambda>u.
                  uninitialized_value_construct_n T
                    (ptr_add (GetAddress (data_f u)) (size_f u)) (new_size - size_f u)))) (\<lambda>_.
         update_object this (\<lambda>u. u\<lparr>size_f := new_size\<rparr>)))"

subsection \<open>EmplaceBack, PushBack\<close>

text \<open>
  The arguments of \<^verbatim>\<open>EmplaceBack\<close> construct the value \<open>x\<close>. The result is the
  address of \<^verbatim>\<open>(*this)[size_ - 1]\<close>.
\<close>

definition EmplaceBack :: "'a env \<Rightarrow> nat \<Rightarrow> 'a \<Rightarrow> ('a, ptr) prog" where
  "EmplaceBack T this x =
     with_object this (\<lambda>v.
       seq (if size_f v < Vector_Capacity v then
              construct_at T (RawMemory_plus (data_f v) (size_f v)) x
            else
              seq (RawMemory_ctor T (if size_f v = 0 then 1 else size_f v * 2)) (\<lambda>new_data.
              seq (try_catch_rethrow
                     (seq (construct_at T (RawMemory_plus new_data (size_f v)) x) (\<lambda>_.
                      MoveElements T (GetAddress (data_f v)) (size_f v) (GetAddress new_data)))
                     (RawMemory_dtor new_data)) (\<lambda>_.
              case RawMemory_Swap (data_f v) new_data of
                (d, new_data') \<Rightarrow>
                  seq (put_object this (v\<lparr>data_f := d\<rparr>)) (\<lambda>_. RawMemory_dtor new_data')))) (\<lambda>_.
       seq (update_object this (\<lambda>u. u\<lparr>size_f := Suc (size_f u)\<rparr>)) (\<lambda>_.
       with_object this (\<lambda>u. ret (Vector_index u (size_f u - 1))))))"

definition PushBack :: "'a env \<Rightarrow> nat \<Rightarrow> 'a \<Rightarrow> ('a, unit) prog" where
  "PushBack T this x = seq (EmplaceBack T this x) (\<lambda>_. ret ())"

subsection \<open>Emplace, Insert\<close>

text \<open>
  \<^verbatim>\<open>Emplace(pos, args...)\<close>. The call of \<^verbatim>\<open>EmplaceBack\<close> for \<^verbatim>\<open>pos == end()\<close>
  is not followed by a \<^verbatim>\<open>return\<close>, so the rest of the body runs in every case, on the
  object as \<^verbatim>\<open>EmplaceBack\<close> left it. \<^verbatim>\<open>size_ - index\<close> and
  \<^verbatim>\<open>Size() - 1\<close> are \<^verbatim>\<open>size_t\<close> subtractions; where they would wrap, the range
  they describe lies outside every block, which the two \<open>assert_that\<close> of this definition
  record as undefined behaviour (the source has no assertion there). The temporary
  \<^verbatim>\<open>temp\<close> and the local \<^verbatim>\<open>new_data\<close> are destructed when the scope is left, by
  return or by exception.
\<close>

definition Emplace :: "'a env \<Rightarrow> nat \<Rightarrow> ptr \<Rightarrow> 'a \<Rightarrow> ('a, ptr) prog" where
  "Emplace T this pos x =
     with_object this (\<lambda>v0.
     seq (if pos = Vector_end v0 then seq (EmplaceBack T this x) (\<lambda>_. ret ()) else ret ()) (\<lambda>_.
     with_object this (\<lambda>v.
     seq (ptr_diff pos (Vector_begin v)) (\<lambda>index.
     seq (if size_f v < Vector_Capacity v then
            seq (construct_temp T x) (\<lambda>temp.
            seq (assert_that (Vector_Size v \<noteq> 0)) (\<lambda>_.
            seq (move_construct T (Vector_index v (Vector_Size v - 1)) (Vector_end v)) (\<lambda>_.
            seq (ptr_diff (fst (Vector_end v), snd (Vector_end v) - 1)
                   (ptr_add (Vector_begin v) index)) (\<lambda>count.
            seq (move_backward T (ptr_add (Vector_begin v) index) count (Vector_end v)) (\<lambda>_.
            move_assign_temp T temp (RawMemory_index (data_f v) index))))))
          else
            seq (RawMemory_ctor T (if size_f v = 0 then 1 else size_f v * 2)) (\<lambda>new_data.
            seq (try_catch_rethrow
                   (seq (construct_at T (RawMemory_plus new_data index) x) (\<lambda>_.
                    seq (try_catch_rethrow
                           (MoveElements T (GetAddress (data_f v)) index (GetAddress new_data))
                           (destroy_at (RawMemory_plus new_data index))) (\<lambda>_.
                    seq (assert_that (index \<le> size_f v)) (\<lambda>_.
                    try_catch_rethrow
                      (MoveElements T (RawMemory_plus (data_f v) index) (size_f v - index)
                         (RawMemory_plus new_data (index + 1)))
                      (destroy_n (GetAddress (data_f v)) (index + 1))))))
                   (RawMemory_dtor new_data)) (\<lambda>_.
            case RawMemory_Swap (data_f v) new_data of
              (d, new_data') \<Rightarrow>
                seq (put_object this (v\<lparr>data_f := d\<rparr>)) (\<lambda>_. RawMemory_dtor new_data')))) (\<lambda>_.
     seq (update_object this (\<lambda>u. u\<lparr>size_f := Suc (size_f u)\<rparr>)) (\<lambda>_.
     with_object this (\<lambda>u. ret (ptr_add (Vector_begin u) index))))))))"

definition Insert :: "'a env \<Rightarrow> nat \<Rightarrow> ptr \<Rightarrow> 'a \<Rightarrow> ('a, ptr) prog" where
  "Insert T this pos x = Emplace T this pos x"

subsection \<open>PopBack, Erase\<close>

text \<open>
  Both start with \<^verbatim>\<open>assert(size_ > 0)\<close>. Where it is violated a debug build aborts,
  and under \<^verbatim>\<open>NDEBUG\<close> \<^verbatim>\<open>--size_\<close> wraps around and the destructor is applied
  outside the block: undefined behaviour in the model. In \<^verbatim>\<open>Erase\<close> the range
  \<^verbatim>\<open>[data_ + (index + 1), end())\<close> of \<^verbatim>\<open>std::move\<close> must not be reversed.
\<close>

definition PopBack :: "nat \<Rightarrow> ('a, unit) prog" where
  "PopBack this =
     with_object this (\<lambda>v.
       seq (assert_that (size_f v > 0)) (\<lambda>_.
       seq (put_object this (v\<lparr>size_f := size_f v - 1\<rparr>)) (\<lambda>_.
       destroy_at (RawMemory_plus (data_f v) (size_f v - 1)))))"

definition Erase :: "'a env \<Rightarrow> nat \<Rightarrow> ptr \<Rightarrow> ('a, ptr) prog" where
  "Erase T this pos =
     with_object this (\<lambda>v.
       seq (assert_that (size_f v > 0)) (\<lambda>_.
       seq (ptr_diff pos (Vector_begin v)) (\<lambda>index.
       seq (ptr_diff (Vector_end v) (RawMemory_plus (data_f v) (index + 1))) (\<lambda>count.
       seq (move_range T (RawMemory_plus (data_f v) (index + 1)) count
              (RawMemory_plus (data_f v) index)) (\<lambda>_.
       seq (put_object this (v\<lparr>size_f := size_f v - 1\<rparr>)) (\<lambda>_.
       seq (destroy_at (RawMemory_plus (data_f v) (size_f v - 1))) (\<lambda>_.
       ret (RawMemory_plus (data_f v) index))))))))"

section \<open>The data-model invariant\<close>

text \<open>
  The invariant of the data model: \<open>size \<le> capacity\<close>; a buffer of capacity \<open>0\<close> is the
  null pointer; otherwise the buffer is the start of an allocated block of \<open>capacity\<close>
  slots, of which the slots \<open>[0, size)\<close> hold constructed values and the slots
  \<open>[size, capacity)\<close> are raw.
\<close>

fun is_live :: "'a slot \<Rightarrow> bool" where
  "is_live Raw = False"
| "is_live (Live x) = True"

fun is_raw :: "'a slot \<Rightarrow> bool" where
  "is_raw Raw = True"
| "is_raw (Live x) = False"

definition Vector_invariant :: "'a world \<Rightarrow> Vector \<Rightarrow> bool" where
  "Vector_invariant w v =
     (size_f v \<le> capacity_f (data_f v) \<and>
      (if capacity_f (data_f v) = 0 then buffer_f (data_f v) = nullptr
       else fst (buffer_f (data_f v)) \<noteq> 0 \<and> snd (buffer_f (data_f v)) = 0 \<and>
         (case heap w (fst (buffer_f (data_f v))) of
            None \<Rightarrow> False
          | Some ss \<Rightarrow>
              length ss = capacity_f (data_f v) \<and>
              list_all is_live (take (size_f v) ss) \<and>
              list_all is_raw (drop (size_f v) ss))))"

text \<open>The slots \<open>[0, size)\<close> of a vector, in order.\<close>

definition elements :: "'a world \<Rightarrow> Vector \<Rightarrow> 'a slot list" where
  "elements w v =
     (case heap w (fst (buffer_f (data_f v))) of
        None \<Rightarrow> []
      | Some ss \<Rightarrow> take (size_f v) ss)"

text \<open>
  The allocator hands out the block \<open>next_block\<close>: it is not the null block and not in use.
\<close>

definition fresh_block :: "'a world \<Rightarrow> bool" where
  "fresh_block w = (next_block w \<noteq> 0 \<and> heap w (next_block w) = None)"

section \<open>Client programs used as concrete inputs\<close>

text \<open>
  Two element types over \<open>int\<close> values: one with a non-throwing move constructor
  (relocated by move), one copyable with a move constructor that may throw (relocated by
  copy); \<open>f\<close> is the failure schedule.
\<close>

definition nothrow_movable :: "(nat \<Rightarrow> bool) \<Rightarrow> int env" where
  "nothrow_movable f =
     \<lparr>is_nothrow_move_constructible = True, is_copy_constructible = True,
      value_initialized = 0, moved_from = (\<lambda>x. x), throws_at = f\<rparr>"

definition copy_relocated :: "(nat \<Rightarrow> bool) \<Rightarrow> int env" where
  "copy_relocated f =
     \<lparr>is_nothrow_move_constructible = False, is_copy_constructible = True,
      value_initialized = 0, moved_from = (\<lambda>x. x), throws_at = f\<rparr>"

definition never :: "nat \<Rightarrow> bool" where
  "never k = False"

definition only_at :: "nat \<Rightarrow> nat \<Rightarrow> bool" where
  "only_at n k = (k = n)"

definition empty_world :: "int world" where
  "empty_world =
     \<lparr>heap = Map.empty, objects = Map.empty, next_block = 1, ticks = 0, trace = []\<rparr>"

fun push_all :: "'a env \<Rightarrow> nat \<Rightarrow> 'a list \<Rightarrow> ('a, unit) prog" where
  "push_all T this [] = ret ()"
| "push_all T this (x # xs) = seq (PushBack T this x) (\<lambda>_. push_all T this xs)"

text \<open>\<^verbatim>\<open>Vector<T> v; v.PushBack(x1); ...\<close> at the address \<open>this\<close>.\<close>

definition make :: "'a env \<Rightarrow> nat \<Rightarrow> 'a list \<Rightarrow> ('a, unit) prog" where
  "make T this xs = seq (Vector_ctor this) (\<lambda>_. push_all T this xs)"

definition after :: "('a, 'r) prog \<Rightarrow> 'a world \<Rightarrow> 'a world" where
  "after m w = snd (m w)"

text \<open>A vector \<open>[1, 2, 3]\<close> of capacity \<open>4\<close> at address \<open>0\<close>.\<close>

definition world_123 :: "int world" where
  "world_123 = after (make (nothrow_movable never) 0 [1, 2, 3]) empty_world"

text \<open>A target \<open>[1, 2, 3]\<close> at address \<open>0\<close> and a source \<open>[7]\<close> at address \<open>1\<close>.\<close>

definition world_123_7 :: "int world" where
  "world_123_7 = after (make (nothrow_movable never) 1 [7]) world_123"

text \<open>
  A full vector \<open>[1, 2]\<close> at address \<open>0\<close> of an element type relocated by copy; its
  construction takes the fallible operations \<open>0\<close> to \<open>4\<close>, and operation \<open>8\<close> will throw.
\<close>

definition world_12 :: "int world" where
  "world_12 = after (make (copy_relocated (only_at 8)) 0 [1, 2]) empty_world"

text \<open>
  A full vector \<open>[1]\<close> at address \<open>0\<close> of such an element type; its construction takes the
  fallible operations \<open>0\<close> and \<open>1\<close>, and operation \<open>4\<close> will throw.
\<close>

definition world_1 :: "int world" where
  "world_1 = after (make (copy_relocated (only_at 4)) 0 [1]) empty_world"

text \<open>The vector \<open>[1, 2, 3]\<close> on block \<open>3\<close> and a raw block \<open>4\<close> of three slots.\<close>

definition world_123_raw :: "int world" where
  "world_123_raw = after (RawMemory_ctor (nothrow_movable never) 3) world_123"

text \<open>A full vector \<open>[1, 2]\<close> at address \<open>0\<close> of an element type that never throws.\<close>

definition world_full_12 :: "int world" where
  "world_full_12 = after (make (nothrow_movable never) 0 [1, 2]) empty_world"

text \<open>
  A target \<open>[1]\<close> of capacity \<open>1\<close> at address \<open>0\<close> and a source \<open>[7, 8]\<close> at address \<open>1\<close>,
  of an element type relocated by copy; their construction takes the fallible operations
  \<open>0\<close> to \<open>6\<close>, and operation \<open>9\<close> will throw.
\<close>

definition world_1_78 :: "int world" where
  "world_1_78 =
     after (make (copy_relocated (only_at 9)) 1 [7, 8])
       (after (make (copy_relocated (only_at 9)) 0 [1]) empty_world)"

text \<open>
  A full vector \<open>[1, 2]\<close> at address \<open>0\<close> of an element type relocated by copy that never
  throws.
\<close>

definition world_copy_12 :: "int world" where
  "world_copy_12 = after (make (copy_relocated never) 0 [1, 2]) empty_world"

text \<open>
  The events of one relocation of \<open>n\<close> elements: the \<open>n\<close> constructor calls, by move or by
  copy as the two type traits decide, then the \<open>n\<close> destructor calls on the source range.
\<close>

definition relocation_trace :: "'a env \<Rightarrow> ptr \<Rightarrow> nat \<Rightarrow> ptr \<Rightarrow> event list" where
  "relocation_trace T from_p n to_p =
     map (\<lambda>j. if is_nothrow_move_constructible T \<or> \<not> is_copy_constructible T
               then MoveConstructed (ptr_add from_p j) (ptr_add to_p j)
               else CopyConstructed (ptr_add from_p j) (ptr_add to_p j)) [0..<n] @
     map (\<lambda>j. Destroyed (ptr_add from_p j)) [0..<n]"

text \<open>The event of releasing a buffer: none for the null pointer.\<close>

definition release_trace :: "ptr \<Rightarrow> event list" where
  "release_trace buf = (if buf = nullptr then [] else [Deallocated (fst buf)])"

text \<open>
  A trace in which every relocating constructor call comes before every destructor call:
  once an element has been destroyed, no element is move- or copy-constructed any more.
\<close>

fun is_relocation :: "event \<Rightarrow> bool" where
  "is_relocation (CopyConstructed src dst) = True"
| "is_relocation (MoveConstructed src dst) = True"
| "is_relocation e = False"

fun no_relocation :: "event list \<Rightarrow> bool" where
  "no_relocation [] = True"
| "no_relocation (e # es) = (\<not> is_relocation e \<and> no_relocation es)"

fun destroyed_after_all_constructed :: "event list \<Rightarrow> bool" where
  "destroyed_after_all_constructed [] = True"
| "destroyed_after_all_constructed (Destroyed p # es) = no_relocation es"
| "destroyed_after_all_constructed (e # es) = destroyed_after_all_constructed es"

section \<open>Auxiliary facts\<close>

subsection \<open>Basic facts about the primitives\<close>

lemma set_slot_fields [simp]:
  "trace (set_slot p s w) = trace w"
  "objects (set_slot p s w) = objects w"
  "ticks (set_slot p s w) = ticks w"
  "next_block (set_slot p s w) = next_block w"
  by (simp_all add: set_slot_def split: option.splits)

lemma emit_fields [simp]:
  "trace (emit e w) = trace w @ [e]"
  "objects (emit e w) = objects w"
  "ticks (emit e w) = ticks w"
  "next_block (emit e w) = next_block w"
  "heap (emit e w) = heap w"
  by (simp_all add: emit_def)

lemma seq_throw_not_Ok: "seq m (\<lambda>_. throw e) w \<noteq> (Ok r, w')"
  by (simp add: seq_def throw_def split: prod.splits outcome.splits)

lemma tick_Ok_trace: "tick T e w = (Ok r, w1) \<Longrightarrow> trace w1 = trace w"
  by (auto simp: tick_def split: if_splits)

lemma copy_construct_trace:
  "copy_construct T src dst w = (Ok r, w1) \<Longrightarrow> trace w1 = trace w @ [CopyConstructed src dst]"
  by (auto simp: copy_construct_def seq_def tick_def
           split: option.splits slot.splits if_splits)

lemma move_construct_trace:
  "move_construct T src dst w = (Ok r, w1) \<Longrightarrow> trace w1 = trace w @ [MoveConstructed src dst]"
  by (auto simp: move_construct_def seq_def tick_def ret_def
           split: option.splits slot.splits if_splits)

lemma destroy_at_trace:
  "destroy_at p w = (Ok r, w1) \<Longrightarrow> trace w1 = trace w @ [Destroyed p]"
  by (auto simp: destroy_at_def split: option.splits slot.splits)

lemma ptr_add_0 [simp]: "ptr_add p 0 = p"
  by (simp add: ptr_add_def)

lemma ptr_add_add [simp]: "ptr_add (ptr_add p a) b = ptr_add p (a + b)"
  by (simp add: ptr_add_def)

lemma destroy_n_trace:
  "destroy_n p n w = (Ok r, w') \<Longrightarrow>
   trace w' = trace w @ map (\<lambda>j. Destroyed (ptr_add p j)) [0..<n]"
proof (induction n arbitrary: p w)
  case 0
  then show ?case by (simp add: ret_def)
next
  case (Suc n)
  from Suc.prems obtain w1 where
    one: "destroy_at p w = (Ok (), w1)" and
    rest: "destroy_n (ptr_add p 1) n w1 = (Ok r, w')"
    by (auto simp: seq_def split: prod.splits outcome.splits)
  have "trace w' = trace w1 @ map (\<lambda>j. Destroyed (ptr_add (ptr_add p 1) j)) [0..<n]"
    using Suc.IH [OF rest] .
  also have "trace w1 = trace w @ [Destroyed p]"
    using destroy_at_trace [OF one] .
  also have "map (\<lambda>j. Destroyed (ptr_add (ptr_add p 1) j)) [0..<n] =
             map (\<lambda>j. Destroyed (ptr_add p j)) [1..<Suc n]"
    by (simp add: map_Suc_upt [symmetric] del: upt_Suc)
  finally show ?case
    by (simp add: upt_rec [of 0 "Suc n"] del: upt_Suc)
qed

lemma construct_loop_trace:
  assumes step: "\<And>j u u1. step j u = (Ok (), u1) \<Longrightarrow> trace u1 = trace u @ [ev j]"
    and run: "construct_loop step d i k w = (Ok r, w')"
  shows "trace w' = trace w @ map ev [i..<i + k]"
  using run
proof (induction k arbitrary: i w)
  case 0
  then show ?case by simp
next
  case (Suc k)
  from Suc.prems obtain w1 where
    one: "step i w = (Ok (), w1)" and
    rest: "construct_loop step d (Suc i) k w1 = (Ok r, w')"
    by (auto simp: seq_throw_not_Ok split: prod.splits outcome.splits)
  have "trace w' = trace w1 @ map ev [Suc i..<Suc i + k]"
    using Suc.IH [OF rest] .
  also have "trace w1 = trace w @ [ev i]"
    using step [OF one] .
  finally show ?case
    by (simp add: upt_rec [of i "Suc (i + k)"] del: upt_Suc)
qed

lemma heap_set_slot:
  "heap (set_slot p s w) =
     (case heap w (fst p) of None \<Rightarrow> heap w | Some ss \<Rightarrow> (heap w)(fst p \<mapsto> ss[snd p := s]))"
  by (simp add: set_slot_def split: option.splits)

lemma slot_at_pair:
  "heap w b = Some ss \<Longrightarrow> slot_at w (b, i) = (if i < length ss then Some (ss ! i) else None)"
  by (simp add: slot_at_def)

lemma ptr_add_pair [simp]: "ptr_add (b, i) k = (b, i + k)"
  by (simp add: ptr_add_def)

lemma tick_ok:
  "\<not> throws_at T (ticks w) \<Longrightarrow> tick T e w = (Ok (), w\<lparr>ticks := Suc (ticks w)\<rparr>)"
  by (simp add: tick_def)

lemma construct_at_ok:
  assumes "heap w b = Some ds" "i < length ds" "ds ! i = Raw" "\<not> throws_at T (ticks w)"
  shows "\<exists>w1. construct_at T (b, i) x w = (Ok (), w1) \<and>
           heap w1 = (heap w)(b \<mapsto> ds[i := Live x]) \<and> objects w1 = objects w \<and>
           ticks w1 = Suc (ticks w) \<and> next_block w1 = next_block w \<and>
           trace w1 = trace w @ [Constructed (b, i)]"
  using assms
  by (simp add: construct_at_def slot_at_pair seq_def tick_ok heap_set_slot)

lemma copy_construct_ok:
  assumes "heap w sb = Some ss" "i < length ss" "ss ! i = Live x"
    "heap w db = Some ds" "k < length ds" "ds ! k = Raw" "\<not> throws_at T (ticks w)"
  shows "\<exists>w1. copy_construct T (sb, i) (db, k) w = (Ok (), w1) \<and>
           heap w1 = (heap w)(db \<mapsto> ds[k := Live x]) \<and> objects w1 = objects w \<and>
           ticks w1 = Suc (ticks w) \<and> next_block w1 = next_block w \<and>
           trace w1 = trace w @ [CopyConstructed (sb, i) (db, k)]"
  using assms
  by (simp add: copy_construct_def slot_at_pair seq_def tick_ok heap_set_slot)

lemma move_construct_ok:
  assumes "heap w sb = Some ss" "i < length ss" "ss ! i = Live x"
    "heap w db = Some ds" "k < length ds" "ds ! k = Raw" "sb \<noteq> db"
    "\<not> throws_at T (ticks w)"
  shows "\<exists>w1. move_construct T (sb, i) (db, k) w = (Ok (), w1) \<and>
           heap w1 = (heap w)(db \<mapsto> ds[k := Live x], sb \<mapsto> ss[i := Live (moved_from T x)]) \<and>
           objects w1 = objects w \<and>
           ticks w \<le> ticks w1 \<and> ticks w1 \<le> Suc (ticks w) \<and> next_block w1 = next_block w \<and>
           trace w1 = trace w @ [MoveConstructed (sb, i) (db, k)]"
  using assms
  by (simp add: move_construct_def slot_at_pair seq_def tick_ok heap_set_slot ret_def)

lemma destroy_at_ok:
  assumes "heap w b = Some ss" "i < length ss" "is_live (ss ! i)"
  shows "\<exists>w1. destroy_at (b, i) w = (Ok (), w1) \<and>
           heap w1 = (heap w)(b \<mapsto> ss[i := Raw]) \<and> objects w1 = objects w \<and>
           ticks w1 = ticks w \<and> next_block w1 = next_block w \<and>
           trace w1 = trace w @ [Destroyed (b, i)]"
  using assms
  by (cases "ss ! i") (simp_all add: destroy_at_def slot_at_pair heap_set_slot)

lemma destroy_n_ok:
  assumes "heap w b = Some ss" "a + n \<le> length ss" "\<forall>m<n. is_live (ss ! (a + m))"
  shows "\<exists>w'. destroy_n (b, a) n w = (Ok (), w') \<and>
           heap w' = (heap w)(b \<mapsto> take a ss @ replicate n Raw @ drop (a + n) ss) \<and>
           objects w' = objects w \<and> ticks w' = ticks w \<and> next_block w' = next_block w"
  using assms
proof (induction n arbitrary: a ss w)
  case 0
  then show ?case by (simp add: ret_def fun_upd_idem)
next
  case (Suc n)
  have live: "is_live (ss ! a)" and len: "a < length ss"
    using Suc.prems(2,3) by (auto dest: spec [of _ 0])
  from destroy_at_ok [OF Suc.prems(1) len live] obtain w1 where
    one: "destroy_at (b, a) w = (Ok (), w1)" and
    h1: "heap w1 = (heap w)(b \<mapsto> ss[a := Raw])" and
    f1: "objects w1 = objects w" "ticks w1 = ticks w" "next_block w1 = next_block w"
    by blast
  have hb: "heap w1 b = Some (ss[a := Raw])" by (simp add: h1)
  have rest_live: "\<forall>m<n. is_live (ss[a := Raw] ! (Suc a + m))"
    using Suc.prems(2,3) by (auto dest: spec [of _ "Suc _"])
  have len': "Suc a + n \<le> length (ss[a := Raw])"
    using Suc.prems(2) by simp
  from Suc.IH [OF hb len' rest_live] obtain w' where
    rest: "destroy_n (b, Suc a) n w1 = (Ok (), w')" and
    h': "heap w' = (heap w1)(b \<mapsto>
           take (Suc a) (ss[a := Raw]) @ replicate n Raw @ drop (Suc a + n) (ss[a := Raw]))" and
    f': "objects w' = objects w1" "ticks w' = ticks w1" "next_block w' = next_block w1"
    by blast
  have shape: "take (Suc a) (ss[a := Raw]) @ replicate n Raw @ drop (Suc a + n) (ss[a := Raw]) =
      take a ss @ replicate (Suc n) Raw @ drop (a + Suc n) ss"
    using len by (simp add: take_Suc_conv_app_nth)
  have "heap w' = (heap w)(b \<mapsto> take a ss @ replicate (Suc n) Raw @ drop (a + Suc n) ss)"
    unfolding h' h1 shape by simp
  moreover have "destroy_n (b, a) (Suc n) w = (Ok (), w')"
    using one rest by (simp add: seq_def)
  ultimately show ?case
    using f1 f' by metis
qed

subsection \<open>Relocation succeeds when nothing throws\<close>

lemma relocate_loop_ok:
  assumes step: "\<And>i u ss ds x.
      \<lbrakk>heap u sb = Some ss; i < length ss; ss ! i = Live x;
       heap u db = Some ds; i < length ds; ds ! i = Raw;
       \<forall>t\<ge>ticks u. \<not> throws_at T t\<rbrakk>
      \<Longrightarrow> \<exists>u1 y. step i u = (Ok (), u1) \<and>
            heap u1 = (heap u)(db \<mapsto> ds[i := Live x], sb \<mapsto> ss[i := Live y]) \<and>
            objects u1 = objects u \<and> next_block u1 = next_block u \<and>
            (\<forall>t\<ge>ticks u1. \<not> throws_at T t)"
    and "sb \<noteq> db"
    and "\<forall>t\<ge>ticks w. \<not> throws_at T t"
    and "heap w sb = Some ss" "heap w db = Some ds"
    and "j + k \<le> length ss" "j + k \<le> length ds"
    and "\<forall>m. j \<le> m \<and> m < j + k \<longrightarrow> is_live (ss ! m) \<and> ds ! m = Raw"
  shows "\<exists>w' ss' ds'. construct_loop step d j k w = (Ok (), w') \<and>
      heap w' sb = Some ss' \<and> heap w' db = Some ds' \<and>
      length ss' = length ss \<and> length ds' = length ds \<and>
      (\<forall>m. j \<le> m \<and> m < j + k \<longrightarrow> ds' ! m = ss ! m \<and> is_live (ss' ! m)) \<and>
      (\<forall>m. \<not> (j \<le> m \<and> m < j + k) \<longrightarrow> ds' ! m = ds ! m \<and> ss' ! m = ss ! m) \<and>
      (\<forall>b. b \<noteq> sb \<longrightarrow> b \<noteq> db \<longrightarrow> heap w' b = heap w b) \<and>
      objects w' = objects w \<and> next_block w' = next_block w \<and>
      (\<forall>t\<ge>ticks w'. \<not> throws_at T t)"
  using assms(3-)
proof (induction k arbitrary: j w ss ds)
  case 0
  then show ?case by auto
next
  case (Suc k)
  have j_ss: "j < length ss" and j_ds: "j < length ds"
    using Suc.prems(4,5) by simp_all
  have "is_live (ss ! j)" and raw: "ds ! j = Raw"
    using Suc.prems(6) by simp_all
  then obtain x where x: "ss ! j = Live x"
    by (cases "ss ! j") simp_all
  from step [OF Suc.prems(2) j_ss x Suc.prems(3) j_ds raw Suc.prems(1)]
  obtain u1 y where
    one: "step j w = (Ok (), u1)" and
    h1: "heap u1 = (heap w)(db \<mapsto> ds[j := Live x], sb \<mapsto> ss[j := Live y])" and
    f1: "objects u1 = objects w" "next_block u1 = next_block w" and
    n1: "\<forall>t\<ge>ticks u1. \<not> throws_at T t"
    by blast
  have s1: "heap u1 sb = Some (ss[j := Live y])" and d1: "heap u1 db = Some (ds[j := Live x])"
    using \<open>sb \<noteq> db\<close> by (simp_all add: h1)
  have l1: "Suc j + k \<le> length (ss[j := Live y])" "Suc j + k \<le> length (ds[j := Live x])"
    using Suc.prems(4,5) by simp_all
  have p1: "\<forall>m. Suc j \<le> m \<and> m < Suc j + k \<longrightarrow>
              is_live (ss[j := Live y] ! m) \<and> ds[j := Live x] ! m = Raw"
    using Suc.prems(6) by simp
  from Suc.IH [OF n1 s1 d1 l1 p1] obtain w' ss' ds' where
    rest: "construct_loop step d (Suc j) k u1 = (Ok (), w')" and
    hs: "heap w' sb = Some ss'" "heap w' db = Some ds'" and
    len: "length ss' = length (ss[j := Live y])" "length ds' = length (ds[j := Live x])" and
    inside: "\<forall>m. Suc j \<le> m \<and> m < Suc j + k \<longrightarrow>
               ds' ! m = ss[j := Live y] ! m \<and> is_live (ss' ! m)" and
    outside: "\<forall>m. \<not> (Suc j \<le> m \<and> m < Suc j + k) \<longrightarrow>
               ds' ! m = ds[j := Live x] ! m \<and> ss' ! m = ss[j := Live y] ! m" and
    frame: "\<forall>b. b \<noteq> sb \<longrightarrow> b \<noteq> db \<longrightarrow> heap w' b = heap u1 b" and
    f': "objects w' = objects u1" "next_block w' = next_block u1" and
    n': "\<forall>t\<ge>ticks w'. \<not> throws_at T t"
    by blast
  have run: "construct_loop step d j (Suc k) w = (Ok (), w')"
    using one rest by simp
  have at_j: "ds' ! j = ss ! j" "is_live (ss' ! j)"
    using outside j_ss j_ds x by simp_all
  have inside': "\<forall>m. j \<le> m \<and> m < j + Suc k \<longrightarrow> ds' ! m = ss ! m \<and> is_live (ss' ! m)"
  proof (intro allI impI)
    fix m assume m: "j \<le> m \<and> m < j + Suc k"
    show "ds' ! m = ss ! m \<and> is_live (ss' ! m)"
    proof (cases "m = j")
      case True
      then show ?thesis using at_j by simp
    next
      case False
      then have "Suc j \<le> m \<and> m < Suc j + k" using m by simp
      then show ?thesis using inside False by simp
    qed
  qed
  have outside': "\<forall>m. \<not> (j \<le> m \<and> m < j + Suc k) \<longrightarrow> ds' ! m = ds ! m \<and> ss' ! m = ss ! m"
  proof (intro allI impI)
    fix m assume m: "\<not> (j \<le> m \<and> m < j + Suc k)"
    then have "\<not> (Suc j \<le> m \<and> m < Suc j + k)" and "m \<noteq> j" by auto
    then show "ds' ! m = ds ! m \<and> ss' ! m = ss ! m" using outside by simp
  qed
  have frame': "\<forall>b. b \<noteq> sb \<longrightarrow> b \<noteq> db \<longrightarrow> heap w' b = heap w b"
    using frame by (simp add: h1)
  have l': "length ss' = length ss" "length ds' = length ds"
    using len by simp_all
  have o': "objects w' = objects w" "next_block w' = next_block w"
    using f' f1 by simp_all
  from run hs l' inside' outside' frame' o' n' show ?case
    by blast
qed

lemma copy_step_ok:
  assumes "heap u sb = Some ss" "i < length ss" "ss ! i = Live x"
    "heap u db = Some ds" "i < length ds" "ds ! i = Raw"
    "\<forall>t\<ge>ticks u. \<not> throws_at T t" "sb \<noteq> db"
  shows "\<exists>u1 y. copy_construct T (ptr_add (sb, 0) i) (ptr_add (db, 0) i) u = (Ok (), u1) \<and>
      heap u1 = (heap u)(db \<mapsto> ds[i := Live x], sb \<mapsto> ss[i := Live y]) \<and>
      objects u1 = objects u \<and> next_block u1 = next_block u \<and>
      (\<forall>t\<ge>ticks u1. \<not> throws_at T t)"
proof -
  have nt: "\<not> throws_at T (ticks u)" using assms(7) by simp
  from copy_construct_ok [OF assms(1-6) nt] obtain u1 where
    one: "copy_construct T (sb, i) (db, i) u = (Ok (), u1)" and
    h1: "heap u1 = (heap u)(db \<mapsto> ds[i := Live x])" and
    f1: "objects u1 = objects u" "ticks u1 = Suc (ticks u)" "next_block u1 = next_block u"
    by blast
  have same: "ss[i := Live x] = ss"
    using assms(3) by (metis list_update_id)
  have "heap u1 = (heap u)(db \<mapsto> ds[i := Live x], sb \<mapsto> ss[i := Live x])"
    unfolding h1 same using assms(1,8) by (intro ext) simp
  moreover have "\<forall>t\<ge>ticks u1. \<not> throws_at T t"
    using assms(7) f1 by simp
  ultimately show ?thesis
    using one f1 by (simp del: fun_upd_apply) blast
qed

lemma move_step_ok:
  assumes "heap u sb = Some ss" "i < length ss" "ss ! i = Live x"
    "heap u db = Some ds" "i < length ds" "ds ! i = Raw"
    "\<forall>t\<ge>ticks u. \<not> throws_at T t" "sb \<noteq> db"
  shows "\<exists>u1 y. move_construct T (ptr_add (sb, 0) i) (ptr_add (db, 0) i) u = (Ok (), u1) \<and>
      heap u1 = (heap u)(db \<mapsto> ds[i := Live x], sb \<mapsto> ss[i := Live y]) \<and>
      objects u1 = objects u \<and> next_block u1 = next_block u \<and>
      (\<forall>t\<ge>ticks u1. \<not> throws_at T t)"
proof -
  have nt: "\<not> throws_at T (ticks u)" using assms(7) by simp
  from move_construct_ok [OF assms(1-6) assms(8) nt] obtain u1 where
    one: "move_construct T (sb, i) (db, i) u = (Ok (), u1)" and
    h1: "heap u1 = (heap u)(db \<mapsto> ds[i := Live x], sb \<mapsto> ss[i := Live (moved_from T x)])" and
    f1: "objects u1 = objects u" "ticks u \<le> ticks u1" "next_block u1 = next_block u"
    by blast
  have "\<forall>t\<ge>ticks u1. \<not> throws_at T t"
    using assms(7) f1 by simp
  then show ?thesis
    using one h1 f1 by (simp del: fun_upd_apply) blast
qed

lemma MoveElements_ok:
  assumes ne: "sb \<noteq> db"
    and nofail: "\<forall>t\<ge>ticks w. \<not> throws_at T t"
    and hs: "heap w sb = Some ss" and hd: "heap w db = Some ds"
    and ls: "n \<le> length ss" and ld: "n \<le> length ds"
    and pre: "\<forall>m<n. is_live (ss ! m) \<and> ds ! m = Raw"
  shows "\<exists>w' ss' ds'. MoveElements T (sb, 0) n (db, 0) w = (Ok (), w') \<and>
      heap w' sb = Some ss' \<and> heap w' db = Some ds' \<and>
      length ss' = length ss \<and> length ds' = length ds \<and>
      (\<forall>m<n. ds' ! m = ss ! m \<and> ss' ! m = Raw) \<and>
      (\<forall>m. n \<le> m \<and> m < length ds \<longrightarrow> ds' ! m = ds ! m) \<and>
      (\<forall>b. b \<noteq> sb \<longrightarrow> b \<noteq> db \<longrightarrow> heap w' b = heap w b) \<and>
      objects w' = objects w \<and> next_block w' = next_block w \<and>
      (\<forall>t\<ge>ticks w'. \<not> throws_at T t)"
proof -
  define loop where "loop =
    (if is_nothrow_move_constructible T \<or> \<not> is_copy_constructible T
     then uninitialized_move_n T (sb, 0) n (db, 0)
     else uninitialized_copy_n T (sb, 0) n (db, 0))"
  have pre': "\<forall>m. 0 \<le> m \<and> m < 0 + n \<longrightarrow> is_live (ss ! m) \<and> ds ! m = Raw"
    using pre by simp
  have l0: "0 + n \<le> length ss" "0 + n \<le> length ds"
    using ls ld by simp_all
  have "\<exists>w1 ss1 ds1. loop w = (Ok (), w1) \<and>
      heap w1 sb = Some ss1 \<and> heap w1 db = Some ds1 \<and>
      length ss1 = length ss \<and> length ds1 = length ds \<and>
      (\<forall>m. 0 \<le> m \<and> m < 0 + n \<longrightarrow> ds1 ! m = ss ! m \<and> is_live (ss1 ! m)) \<and>
      (\<forall>m. \<not> (0 \<le> m \<and> m < 0 + n) \<longrightarrow> ds1 ! m = ds ! m \<and> ss1 ! m = ss ! m) \<and>
      (\<forall>b. b \<noteq> sb \<longrightarrow> b \<noteq> db \<longrightarrow> heap w1 b = heap w b) \<and>
      objects w1 = objects w \<and> next_block w1 = next_block w \<and>
      (\<forall>t\<ge>ticks w1. \<not> throws_at T t)"
  proof (cases "is_nothrow_move_constructible T \<or> \<not> is_copy_constructible T")
    case True
    then have eq: "loop = construct_loop
        (\<lambda>i. move_construct T (ptr_add (sb, 0) i) (ptr_add (db, 0) i)) (db, 0) 0 n"
      by (simp only: loop_def uninitialized_move_n_def if_True)
    show ?thesis
      unfolding eq
    proof (rule relocate_loop_ok)
      fix i and u :: "'a world" and ss ds :: "'a slot list" and x :: 'a
      assume "heap u sb = Some ss" "i < length ss" "ss ! i = Live x"
        "heap u db = Some ds" "i < length ds" "ds ! i = Raw"
        "\<forall>t\<ge>ticks u. \<not> throws_at T t"
      then show "\<exists>u1 y. move_construct T (ptr_add (sb, 0) i) (ptr_add (db, 0) i) u = (Ok (), u1) \<and>
            heap u1 = (heap u)(db \<mapsto> ds[i := Live x], sb \<mapsto> ss[i := Live y]) \<and>
            objects u1 = objects u \<and> next_block u1 = next_block u \<and>
            (\<forall>t\<ge>ticks u1. \<not> throws_at T t)"
        using ne by (rule move_step_ok)
    qed (fact ne nofail hs hd l0 pre')+
  next
    case False
    then have eq: "loop = construct_loop
        (\<lambda>i. copy_construct T (ptr_add (sb, 0) i) (ptr_add (db, 0) i)) (db, 0) 0 n"
      by (simp only: loop_def uninitialized_copy_n_def if_False)
    show ?thesis
      unfolding eq
    proof (rule relocate_loop_ok)
      fix i and u :: "'a world" and ss ds :: "'a slot list" and x :: 'a
      assume "heap u sb = Some ss" "i < length ss" "ss ! i = Live x"
        "heap u db = Some ds" "i < length ds" "ds ! i = Raw"
        "\<forall>t\<ge>ticks u. \<not> throws_at T t"
      then show "\<exists>u1 y. copy_construct T (ptr_add (sb, 0) i) (ptr_add (db, 0) i) u = (Ok (), u1) \<and>
            heap u1 = (heap u)(db \<mapsto> ds[i := Live x], sb \<mapsto> ss[i := Live y]) \<and>
            objects u1 = objects u \<and> next_block u1 = next_block u \<and>
            (\<forall>t\<ge>ticks u1. \<not> throws_at T t)"
        using ne by (rule copy_step_ok)
    qed (fact ne nofail hs hd l0 pre')+
  qed
  then obtain w1 ss1 ds1 where all: "loop w = (Ok (), w1) \<and>
      heap w1 sb = Some ss1 \<and> heap w1 db = Some ds1 \<and>
      length ss1 = length ss \<and> length ds1 = length ds \<and>
      (\<forall>m. 0 \<le> m \<and> m < 0 + n \<longrightarrow> ds1 ! m = ss ! m \<and> is_live (ss1 ! m)) \<and>
      (\<forall>m. \<not> (0 \<le> m \<and> m < 0 + n) \<longrightarrow> ds1 ! m = ds ! m \<and> ss1 ! m = ss ! m) \<and>
      (\<forall>b. b \<noteq> sb \<longrightarrow> b \<noteq> db \<longrightarrow> heap w1 b = heap w b) \<and>
      objects w1 = objects w \<and> next_block w1 = next_block w \<and>
      (\<forall>t\<ge>ticks w1. \<not> throws_at T t)"
    by (elim exE) (rule that)
  have loop: "loop w = (Ok (), w1)"
    and h1: "heap w1 sb = Some ss1" "heap w1 db = Some ds1"
    and len1: "length ss1 = length ss" "length ds1 = length ds"
    and frame1: "\<forall>b. b \<noteq> sb \<longrightarrow> b \<noteq> db \<longrightarrow> heap w1 b = heap w b"
    and f1: "objects w1 = objects w" "next_block w1 = next_block w"
    and n1: "\<forall>t\<ge>ticks w1. \<not> throws_at T t"
    using all by simp_all
  have inside0: "\<forall>m. 0 \<le> m \<and> m < 0 + n \<longrightarrow> ds1 ! m = ss ! m \<and> is_live (ss1 ! m)"
    and outside0: "\<forall>m. \<not> (0 \<le> m \<and> m < 0 + n) \<longrightarrow> ds1 ! m = ds ! m \<and> ss1 ! m = ss ! m"
    using all by simp_all
  have inside: "\<forall>m<n. ds1 ! m = ss ! m \<and> is_live (ss1 ! m)"
    using inside0 by simp
  have outside: "\<forall>m. n \<le> m \<longrightarrow> ds1 ! m = ds ! m"
    using outside0 by simp
  have live1: "\<forall>m<n. is_live (ss1 ! (0 + m))"
    using inside by simp
  have ln: "0 + n \<le> length ss1"
    using ls len1 by simp
  from destroy_n_ok [OF h1(1) ln live1] obtain w2 where
    destroy: "destroy_n (sb, 0) n w1 = (Ok (), w2)" and
    h2: "heap w2 = (heap w1)(sb \<mapsto> take 0 ss1 @ replicate n Raw @ drop (0 + n) ss1)" and
    f2: "objects w2 = objects w1" "ticks w2 = ticks w1" "next_block w2 = next_block w1"
    by blast
  let ?ss2 = "replicate n Raw @ drop n ss1"
  have run: "MoveElements T (sb, 0) n (db, 0) w = (Ok (), w2)"
    using loop destroy by (simp add: MoveElements_def seq_def loop_def)
  have s2: "heap w2 sb = Some ?ss2" and d2: "heap w2 db = Some ds1"
    using ne h1 by (simp_all add: h2)
  have len2: "length ?ss2 = length ss"
    using ls len1 by simp
  have in2: "\<forall>m<n. ds1 ! m = ss ! m \<and> ?ss2 ! m = Raw"
    using inside by (simp add: nth_append)
  have out2: "\<forall>m. n \<le> m \<and> m < length ds \<longrightarrow> ds1 ! m = ds ! m"
    using outside by simp
  have frame2: "\<forall>b. b \<noteq> sb \<longrightarrow> b \<noteq> db \<longrightarrow> heap w2 b = heap w b"
    using frame1 by (simp add: h2)
  have o2: "objects w2 = objects w" "next_block w2 = next_block w"
    using f1 f2 by simp_all
  have n2: "\<forall>t\<ge>ticks w2. \<not> throws_at T t"
    using n1 f2 by simp
  from run s2 d2 len2 len1(2) in2 out2 frame2 o2 n2 show ?thesis
    by blast
qed

lemma RawMemory_ctor_ok:
  assumes "\<not> throws_at T (ticks w)" "n \<noteq> 0"
  shows "\<exists>w1. RawMemory_ctor T n w = (Ok \<lparr>buffer_f = (next_block w, 0), capacity_f = n\<rparr>, w1) \<and>
           heap w1 = (heap w)(next_block w \<mapsto> replicate n Raw) \<and> objects w1 = objects w \<and>
           ticks w1 = Suc (ticks w) \<and> next_block w1 = Suc (next_block w) \<and>
           trace w1 = trace w @ [Allocated (next_block w) n]"
  using assms
  by (simp add: RawMemory_ctor_def Allocate_def operator_new_def seq_def tick_ok ret_def)

lemma Deallocate_ok:
  assumes "b \<noteq> 0" "heap w b = Some ss"
  shows "Deallocate (b, 0) w = (Ok (), emit (Deallocated b) (w\<lparr>heap := (heap w)(b := None)\<rparr>))"
  using assms by (simp add: Deallocate_def operator_delete_def nullptr_def)

lemma Deallocate_nullptr: "Deallocate (0, 0) w = (Ok (), w)"
  by (simp add: Deallocate_def operator_delete_def nullptr_def)

lemma EmplaceBack_growth_from_empty:
  assumes obj: "objects w this = Some v"
    and cap: "capacity_f (data_f v) = 0" and sz: "size_f v = 0"
    and buf: "buffer_f (data_f v) = (0, 0)"
    and fresh: "fresh_block w"
    and nofail: "\<forall>t\<ge>ticks w. \<not> throws_at T t"
  shows "\<exists>w' v'. EmplaceBack T this x w = (Ok (next_block w, 0), w') \<and>
           objects w' this = Some v' \<and>
           buffer_f (data_f v') = (next_block w, 0) \<and>
           capacity_f (data_f v') = 1 \<and> size_f v' = 1 \<and>
           heap w' (next_block w) = Some [Live x]"
proof -
  have t0: "\<not> throws_at T (ticks w)" and t1: "\<not> throws_at T (Suc (ticks w))"
    using nofail by simp_all
  from RawMemory_ctor_ok [OF t0, of 1] obtain w1 where
    alloc: "RawMemory_ctor T 1 w = (Ok \<lparr>buffer_f = (next_block w, 0), capacity_f = 1\<rparr>, w1)" and
    h1: "heap w1 = (heap w)(next_block w \<mapsto> replicate 1 Raw)" and
    f1: "objects w1 = objects w" "ticks w1 = Suc (ticks w)"
    by auto
  have hb1: "heap w1 (next_block w) = Some [Raw]"
    by (simp add: h1)
  have t1': "\<not> throws_at T (ticks w1)"
    using t1 f1 by simp
  from construct_at_ok [OF hb1 _ _ t1', of 0 x] obtain w2 where
    cons: "construct_at T (next_block w, 0) x w1 = (Ok (), w2)" and
    h2: "heap w2 = (heap w1)(next_block w \<mapsto> [Raw][0 := Live x])" and
    f2: "objects w2 = objects w1"
    by auto
  have move: "MoveElements T (0, 0) 0 (next_block w, 0) w2 = (Ok (), w2)"
    by (simp add: MoveElements_def uninitialized_move_n_def uninitialized_copy_n_def
          seq_def ret_def)
  have inner: "try_catch_rethrow
      (seq (construct_at T (next_block w, 0) x)
         (\<lambda>_. MoveElements T (0, 0) 0 (next_block w, 0)))
      (RawMemory_dtor \<lparr>buffer_f = (next_block w, 0), capacity_f = 1\<rparr>) w1 = (Ok (), w2)"
    using cons move by (simp add: try_catch_rethrow_def seq_def)
  have o2: "objects w2 this = Some v"
    using obj f1 f2 by simp
  show ?thesis
    using obj cap sz buf alloc inner o2 h2
    by (simp add: EmplaceBack_def with_object_def Vector_Capacity_def RawMemory_Capacity_def
          seq_def GetAddress_def RawMemory_plus_def RawMemory_Swap_def put_object_def
          RawMemory_dtor_def Deallocate_nullptr update_object_def ret_def Vector_index_def
          RawMemory_index_def)
qed

lemma EmplaceBack_growth_full:
  assumes obj: "objects w this = Some v"
    and cap: "capacity_f (data_f v) = c" and sz: "size_f v = c" and pos: "0 < c"
    and buf: "buffer_f (data_f v) = (vb, 0)" and vb: "vb \<noteq> 0"
    and hv: "heap w vb = Some ss" and len: "length ss = c"
    and live: "\<forall>m<c. is_live (ss ! m)"
    and fresh: "fresh_block w"
    and nofail: "\<forall>t\<ge>ticks w. \<not> throws_at T t"
  shows "\<exists>w' v' ds. EmplaceBack T this x w = (Ok (next_block w, c), w') \<and>
           objects w' this = Some v' \<and>
           buffer_f (data_f v') = (next_block w, 0) \<and>
           capacity_f (data_f v') = 2 * c \<and> size_f v' = c + 1 \<and>
           heap w' (next_block w) = Some ds \<and> length ds = 2 * c \<and>
           (\<forall>m<c. ds ! m = ss ! m) \<and> ds ! c = Live x \<and>
           (\<forall>m. c < m \<and> m < 2 * c \<longrightarrow> ds ! m = Raw)"
proof -
  define nb where "nb = next_block w"
  define new_data where "new_data = \<lparr>buffer_f = (nb, 0), capacity_f = c * 2\<rparr>"
  have nb0: "nb \<noteq> 0" and hnb: "heap w nb = None"
    using fresh by (simp_all add: fresh_block_def nb_def)
  have ne: "vb \<noteq> nb"
    using hv hnb by auto
  have t0: "\<not> throws_at T (ticks w)" and later: "\<forall>t\<ge>Suc (Suc (ticks w)). \<not> throws_at T t"
    and t1: "\<not> throws_at T (Suc (ticks w))"
    using nofail by simp_all
  from RawMemory_ctor_ok [OF t0, of "c * 2"] pos obtain w1 where
    alloc: "RawMemory_ctor T (c * 2) w = (Ok new_data, w1)" and
    h1: "heap w1 = (heap w)(nb \<mapsto> replicate (c * 2) Raw)" and
    f1: "objects w1 = objects w" "ticks w1 = Suc (ticks w)"
    unfolding nb_def new_data_def by auto
  have hb1: "heap w1 nb = Some (replicate (c * 2) Raw)"
    by (simp add: h1)
  have t1': "\<not> throws_at T (ticks w1)"
    using t1 f1 by simp
  have c_lt: "c < length (replicate (c * 2) Raw :: 'a slot list)"
    using pos by simp
  have c_raw: "(replicate (c * 2) Raw :: 'a slot list) ! c = Raw"
    using pos by simp
  define ds0 where "ds0 = (replicate (c * 2) Raw :: 'a slot list)[c := Live x]"
  from construct_at_ok [OF hb1 c_lt c_raw t1', of x] obtain w2 where
    cons: "construct_at T (nb, c) x w1 = (Ok (), w2)" and
    h2: "heap w2 = (heap w1)(nb \<mapsto> ds0)" and
    f2: "objects w2 = objects w1" "ticks w2 = Suc (ticks w1)"
    unfolding ds0_def by blast
  have hs2: "heap w2 vb = Some ss" and hd2: "heap w2 nb = Some ds0"
    using ne hv by (simp_all add: h2 h1)
  have n2: "\<forall>t\<ge>ticks w2. \<not> throws_at T t"
    using later f1 f2 by simp
  have ls: "c \<le> length ss" and ld: "c \<le> length ds0"
    using len by (simp_all add: ds0_def)
  have pre: "\<forall>m<c. is_live (ss ! m) \<and> ds0 ! m = Raw"
    using live by (simp add: ds0_def)
  from MoveElements_ok [OF ne n2 hs2 hd2 ls ld pre] obtain w3 ss3 ds3 where all:
    "MoveElements T (vb, 0) c (nb, 0) w2 = (Ok (), w3) \<and>
      heap w3 vb = Some ss3 \<and> heap w3 nb = Some ds3 \<and>
      length ss3 = length ss \<and> length ds3 = length ds0 \<and>
      (\<forall>m<c. ds3 ! m = ss ! m \<and> ss3 ! m = Raw) \<and>
      (\<forall>m. c \<le> m \<and> m < length ds0 \<longrightarrow> ds3 ! m = ds0 ! m) \<and>
      (\<forall>b. b \<noteq> vb \<longrightarrow> b \<noteq> nb \<longrightarrow> heap w3 b = heap w2 b) \<and>
      objects w3 = objects w2 \<and> next_block w3 = next_block w2 \<and>
      (\<forall>t\<ge>ticks w3. \<not> throws_at T t)"
    by (elim exE) (rule that)
  have move: "MoveElements T (vb, 0) c (nb, 0) w2 = (Ok (), w3)"
    and h3: "heap w3 vb = Some ss3" "heap w3 nb = Some ds3"
    and len3: "length ds3 = length ds0"
    and in3: "\<forall>m<c. ds3 ! m = ss ! m"
    and out3: "\<forall>m. c \<le> m \<and> m < length ds0 \<longrightarrow> ds3 ! m = ds0 ! m"
    and f3: "objects w3 = objects w2"
    using all by simp_all
  have inner: "try_catch_rethrow
      (seq (construct_at T (nb, c) x) (\<lambda>_. MoveElements T (vb, 0) c (nb, 0)))
      (RawMemory_dtor new_data) w1 = (Ok (), w3)"
    using cons move by (simp add: try_catch_rethrow_def seq_def)
  have o3: "objects w3 this = Some v"
    using obj f1 f2 f3 by simp
  define w4 where "w4 = w3\<lparr>objects := (objects w3)(this \<mapsto> v\<lparr>data_f := new_data\<rparr>)\<rparr>"
  have h4: "heap w4 vb = Some ss3"
    using h3 by (simp add: w4_def)
  define w5 where "w5 = emit (Deallocated vb) (w4\<lparr>heap := (heap w4)(vb := None)\<rparr>)"
  have dealloc: "Deallocate (vb, 0) w4 = (Ok (), w5)"
    unfolding w5_def by (rule Deallocate_ok [OF vb h4])
  have o5: "objects w5 this = Some (v\<lparr>data_f := new_data\<rparr>)"
    by (simp add: w5_def w4_def)
  have h5: "heap w5 nb = Some ds3"
    using ne h3 by (simp add: w5_def w4_def)
  have bn: "buffer_f new_data = (nb, 0)"
    by (simp add: new_data_def)
  have swap: "RawMemory_Swap (data_f v) new_data =
      (new_data, \<lparr>buffer_f = (vb, 0), capacity_f = c\<rparr>)"
    using buf cap by (simp add: RawMemory_Swap_def new_data_def)
  define v' where "v' = v\<lparr>data_f := new_data, size_f := Suc c\<rparr>"
  define w6 where "w6 = w5\<lparr>objects := (objects w5)(this \<mapsto> v')\<rparr>"
  have growth: "(seq (RawMemory_ctor T (if size_f v = 0 then 1 else size_f v * 2)) (\<lambda>new_data.
        seq (try_catch_rethrow
               (seq (construct_at T (RawMemory_plus new_data (size_f v)) x) (\<lambda>_.
                MoveElements T (GetAddress (data_f v)) (size_f v) (GetAddress new_data)))
               (RawMemory_dtor new_data)) (\<lambda>_.
        case RawMemory_Swap (data_f v) new_data of
          (d, new_data') \<Rightarrow>
            seq (put_object this (v\<lparr>data_f := d\<rparr>)) (\<lambda>_. RawMemory_dtor new_data')))) w
      = (Ok (), w5)"
    using pos sz alloc inner dealloc buf
    by (simp add: seq_def swap bn RawMemory_plus_def GetAddress_def
          put_object_def RawMemory_dtor_def w4_def)
  have run: "EmplaceBack T this x w = (Ok (nb, c), w6)"
    using obj cap sz growth o5
    by (simp add: EmplaceBack_def with_object_def Vector_Capacity_def RawMemory_Capacity_def
          seq_def update_object_def put_object_def ret_def Vector_index_def
          RawMemory_index_def w6_def v'_def bn)
  have o6: "objects w6 this = Some v'"
    by (simp add: w6_def)
  have h6: "heap w6 nb = Some ds3"
    using h5 by (simp add: w6_def)
  have fields: "buffer_f (data_f v') = (nb, 0)" "capacity_f (data_f v') = 2 * c"
      "size_f v' = c + 1"
    by (simp_all add: v'_def new_data_def)
  have l3: "length ds3 = 2 * c"
    using len3 by (simp add: ds0_def)
  have at_c: "ds3 ! c = Live x"
    using out3 pos by (simp add: ds0_def)
  have above: "\<forall>m. c < m \<and> m < 2 * c \<longrightarrow> ds3 ! m = Raw"
    using out3 by (simp add: ds0_def)
  from run o6 fields h6 l3 in3 at_c above show ?thesis
    unfolding nb_def by blast
qed

subsection \<open>Copying into a fresh block: success or rollback\<close>

lemma copy_construct_cases:
  assumes "heap w sb = Some ss" "i < length ss" "ss ! i = Live x"
    "heap w db = Some ds" "k < length ds" "ds ! k = Raw"
  shows "copy_construct T (sb, i) (db, k) w =
           (if throws_at T (ticks w) then (Throw element_failure, w\<lparr>ticks := Suc (ticks w)\<rparr>)
            else (Ok (), emit (CopyConstructed (sb, i) (db, k))
                           (set_slot (db, k) (Live x) (w\<lparr>ticks := Suc (ticks w)\<rparr>))))"
  using assms
  by (simp add: copy_construct_def slot_at_pair seq_def tick_def)

lemma copy_loop_outcomes:
  assumes "sb \<noteq> db"
    and "heap w sb = Some ss" "heap w db = Some ds"
    and "j + k \<le> length ss" "j + k \<le> length ds"
    and "\<forall>m. j \<le> m \<and> m < j + k \<longrightarrow> is_live (ss ! m) \<and> ds ! m = Raw"
    and "\<forall>m<j. is_live (ds ! m)"
  shows "(\<exists>w' ds'. construct_loop
              (\<lambda>i. copy_construct T (ptr_add (sb, 0) i) (ptr_add (db, 0) i)) (db, 0) j k w
            = (Ok (), w') \<and>
          heap w' db = Some ds' \<and> length ds' = length ds \<and>
          (\<forall>m. j \<le> m \<and> m < j + k \<longrightarrow> ds' ! m = ss ! m) \<and>
          (\<forall>m. \<not> (j \<le> m \<and> m < j + k) \<longrightarrow> ds' ! m = ds ! m) \<and>
          (\<forall>b. b \<noteq> db \<longrightarrow> heap w' b = heap w b) \<and>
          objects w' = objects w \<and> next_block w' = next_block w \<and>
          ticks w' = ticks w + k \<and>
          (\<forall>t. ticks w \<le> t \<and> t < ticks w + k \<longrightarrow> \<not> throws_at T t)) \<or>
         (\<exists>w' ds'. construct_loop
              (\<lambda>i. copy_construct T (ptr_add (sb, 0) i) (ptr_add (db, 0) i)) (db, 0) j k w
            = (Throw element_failure, w') \<and>
          heap w' db = Some ds' \<and> length ds' = length ds \<and>
          (\<forall>m<j + k. ds' ! m = Raw) \<and>
          (\<forall>m. j + k \<le> m \<longrightarrow> ds' ! m = ds ! m) \<and>
          (\<forall>b. b \<noteq> db \<longrightarrow> heap w' b = heap w b) \<and>
          objects w' = objects w \<and> next_block w' = next_block w \<and>
          (\<exists>t. ticks w \<le> t \<and> t < ticks w + k \<and> throws_at T t))"
  using assms(2-)
proof (induction k arbitrary: j w ds)
  case 0
  then show ?case by auto
next
  case (Suc k)
  let ?step = "\<lambda>i. copy_construct T (ptr_add (sb, 0) i) (ptr_add (db, 0) i)"
  have j_ss: "j < length ss" and j_ds: "j < length ds"
    using Suc.prems(3,4) by simp_all
  have "is_live (ss ! j)" and raw: "ds ! j = Raw"
    using Suc.prems(5) by simp_all
  then obtain x where x: "ss ! j = Live x"
    by (cases "ss ! j") simp_all
  note one = copy_construct_cases [OF Suc.prems(1) j_ss x Suc.prems(2) j_ds raw, of T]
  show ?case
  proof (cases "throws_at T (ticks w)")
    case True
    define w1 where "w1 = w\<lparr>ticks := Suc (ticks w)\<rparr>"
    have step: "?step j w = (Throw element_failure, w1)"
      using one True by (simp add: w1_def)
    have hd1: "heap w1 db = Some ds"
      using Suc.prems(2) by (simp add: w1_def)
    have lv: "\<forall>m<j. is_live (ds ! (0 + m))"
      using Suc.prems(6) by simp
    have lj: "0 + j \<le> length ds"
      using j_ds by simp
    from destroy_n_ok [OF hd1 lj lv] obtain w2 where
      destroy: "destroy_n (db, 0) j w1 = (Ok (), w2)" and
      h2: "heap w2 = (heap w1)(db \<mapsto> take 0 ds @ replicate j Raw @ drop (0 + j) ds)" and
      f2: "objects w2 = objects w1" "ticks w2 = ticks w1" "next_block w2 = next_block w1"
      by blast
    let ?ds2 = "replicate j Raw @ drop j ds"
    have run: "construct_loop ?step (db, 0) j (Suc k) w = (Throw element_failure, w2)"
      using step destroy by (simp add: seq_def throw_def)
    have hd2: "heap w2 db = Some ?ds2"
      by (simp add: h2)
    have len2: "length ?ds2 = length ds"
      using j_ds by simp
    have raw2: "\<forall>m<j + Suc k. ?ds2 ! m = Raw"
      using Suc.prems(4,5) by (auto simp: nth_append)
    have keep2: "\<forall>m. j + Suc k \<le> m \<longrightarrow> ?ds2 ! m = ds ! m"
      using j_ds by (auto simp: nth_append)
    have frame2: "\<forall>b. b \<noteq> db \<longrightarrow> heap w2 b = heap w b"
      by (simp add: h2 w1_def)
    have o2: "objects w2 = objects w" "next_block w2 = next_block w"
      using f2 by (simp_all add: w1_def)
    have t2: "\<exists>t. ticks w \<le> t \<and> t < ticks w + Suc k \<and> throws_at T t"
      using True by (intro exI [of _ "ticks w"]) simp
    from run hd2 len2 raw2 keep2 frame2 o2 t2 show ?thesis
      by blast
  next
    case False
    define w1 where "w1 = emit (CopyConstructed (sb, j) (db, j))
        (set_slot (db, j) (Live x) (w\<lparr>ticks := Suc (ticks w)\<rparr>))"
    have step: "?step j w = (Ok (), w1)"
      using one False by (simp add: w1_def)
    let ?ds1 = "ds[j := Live x]"
    have hd1: "heap w1 db = Some ?ds1" and hs1: "heap w1 sb = Some ss"
      using Suc.prems(1,2) \<open>sb \<noteq> db\<close> by (simp_all add: w1_def heap_set_slot)
    have frame1: "\<forall>b. b \<noteq> db \<longrightarrow> heap w1 b = heap w b"
      using Suc.prems(2) by (simp add: w1_def heap_set_slot)
    have f1: "objects w1 = objects w" "next_block w1 = next_block w" "ticks w1 = Suc (ticks w)"
      by (simp_all add: w1_def)
    have l1: "Suc j + k \<le> length ss" "Suc j + k \<le> length ?ds1"
      using Suc.prems(3,4) by simp_all
    have p1: "\<forall>m. Suc j \<le> m \<and> m < Suc j + k \<longrightarrow> is_live (ss ! m) \<and> ?ds1 ! m = Raw"
      using Suc.prems(5) by simp
    have q1: "\<forall>m<Suc j. is_live (?ds1 ! m)"
      using Suc.prems(6) j_ds by (simp add: nth_list_update less_Suc_eq)
    from Suc.IH [OF hs1 hd1 l1 p1 q1]
    show ?thesis
    proof (elim disjE exE)
      fix w' ds'
      assume ok: "construct_loop ?step (db, 0) (Suc j) k w1 = (Ok (), w') \<and>
          heap w' db = Some ds' \<and> length ds' = length ?ds1 \<and>
          (\<forall>m. Suc j \<le> m \<and> m < Suc j + k \<longrightarrow> ds' ! m = ss ! m) \<and>
          (\<forall>m. \<not> (Suc j \<le> m \<and> m < Suc j + k) \<longrightarrow> ds' ! m = ?ds1 ! m) \<and>
          (\<forall>b. b \<noteq> db \<longrightarrow> heap w' b = heap w1 b) \<and>
          objects w' = objects w1 \<and> next_block w' = next_block w1 \<and>
          ticks w' = ticks w1 + k \<and>
          (\<forall>t. ticks w1 \<le> t \<and> t < ticks w1 + k \<longrightarrow> \<not> throws_at T t)"
      have run: "construct_loop ?step (db, 0) j (Suc k) w = (Ok (), w')"
        using step ok by simp
      have hd': "heap w' db = Some ds'" and len': "length ds' = length ds"
        using ok by simp_all
      have at_j: "ds' ! j = ss ! j"
        using ok j_ds x by simp
      have inside: "\<forall>m. j \<le> m \<and> m < j + Suc k \<longrightarrow> ds' ! m = ss ! m"
      proof (intro allI impI)
        fix m assume m: "j \<le> m \<and> m < j + Suc k"
        show "ds' ! m = ss ! m"
        proof (cases "m = j")
          case True
          then show ?thesis using at_j by simp
        next
          case False
          then have "Suc j \<le> m \<and> m < Suc j + k" using m by simp
          then show ?thesis using ok by simp
        qed
      qed
      have outside: "\<forall>m. \<not> (j \<le> m \<and> m < j + Suc k) \<longrightarrow> ds' ! m = ds ! m"
      proof (intro allI impI)
        fix m assume m: "\<not> (j \<le> m \<and> m < j + Suc k)"
        then have "\<not> (Suc j \<le> m \<and> m < Suc j + k)" and "m \<noteq> j" by auto
        then show "ds' ! m = ds ! m" using ok by simp
      qed
      have frame': "\<forall>b. b \<noteq> db \<longrightarrow> heap w' b = heap w b"
        using ok frame1 by simp
      have o': "objects w' = objects w" "next_block w' = next_block w"
          "ticks w' = ticks w + Suc k"
        using ok f1 by simp_all
      have t': "\<forall>t. ticks w \<le> t \<and> t < ticks w + Suc k \<longrightarrow> \<not> throws_at T t"
      proof (intro allI impI)
        fix t assume t: "ticks w \<le> t \<and> t < ticks w + Suc k"
        show "\<not> throws_at T t"
        proof (cases "t = ticks w")
          case True
          then show ?thesis using False by simp
        next
          case neq: False
          then have "ticks w1 \<le> t \<and> t < ticks w1 + k" using t f1 by simp
          then show ?thesis using ok by simp
        qed
      qed
      from run hd' len' inside outside frame' o' t' show ?thesis
        by blast
    next
      fix w' ds'
      assume bad: "construct_loop ?step (db, 0) (Suc j) k w1 = (Throw element_failure, w') \<and>
          heap w' db = Some ds' \<and> length ds' = length ?ds1 \<and>
          (\<forall>m<Suc j + k. ds' ! m = Raw) \<and>
          (\<forall>m. Suc j + k \<le> m \<longrightarrow> ds' ! m = ?ds1 ! m) \<and>
          (\<forall>b. b \<noteq> db \<longrightarrow> heap w' b = heap w1 b) \<and>
          objects w' = objects w1 \<and> next_block w' = next_block w1 \<and>
          (\<exists>t. ticks w1 \<le> t \<and> t < ticks w1 + k \<and> throws_at T t)"
      have run: "construct_loop ?step (db, 0) j (Suc k) w = (Throw element_failure, w')"
        using step bad by simp
      have hd': "heap w' db = Some ds'" and len': "length ds' = length ds"
        using bad by simp_all
      have raw': "\<forall>m<j + Suc k. ds' ! m = Raw"
        using bad by simp
      have keep': "\<forall>m. j + Suc k \<le> m \<longrightarrow> ds' ! m = ds ! m"
        using bad by simp
      have frame': "\<forall>b. b \<noteq> db \<longrightarrow> heap w' b = heap w b"
        using bad frame1 by simp
      have o': "objects w' = objects w" "next_block w' = next_block w"
        using bad f1 by simp_all
      obtain t where "ticks w1 \<le> t \<and> t < ticks w1 + k \<and> throws_at T t"
        using bad by blast
      then have t': "\<exists>t. ticks w \<le> t \<and> t < ticks w + Suc k \<and> throws_at T t"
        using f1 by (intro exI [of _ t]) simp
      from run hd' len' raw' keep' frame' o' t' show ?thesis
        by blast
    qed
  qed
qed

lemma Vector_copy_outcomes:
  assumes buf: "buffer_f (data_f u) = (ob, 0)" and hu: "heap w ob = Some ss"
    and sz: "size_f u = n" and pos: "0 < n" and le: "n \<le> length ss"
    and live: "\<forall>m<n. is_live (ss ! m)"
    and fresh: "fresh_block w"
  shows "(\<exists>w'. Vector_copy T u w =
             (Ok \<lparr>data_f = \<lparr>buffer_f = (next_block w, 0), capacity_f = n\<rparr>, size_f = n\<rparr>, w') \<and>
           heap w' (next_block w) = Some (take n ss) \<and>
           (\<forall>b. b \<noteq> next_block w \<longrightarrow> heap w' b = heap w b) \<and>
           objects w' = objects w \<and>
           (\<forall>t. ticks w \<le> t \<and> t \<le> ticks w + n \<longrightarrow> \<not> throws_at T t)) \<or>
         (\<exists>e w'. Vector_copy T u w = (Throw e, w') \<and>
           heap w' = heap w \<and> objects w' = objects w \<and>
           (\<exists>t. ticks w \<le> t \<and> t \<le> ticks w + n \<and> throws_at T t))"
proof (cases "throws_at T (ticks w)")
  case True
  have "Vector_copy T u w = (Throw bad_alloc, w\<lparr>ticks := Suc (ticks w)\<rparr>)"
    using True pos sz
    by (simp add: Vector_copy_def Vector_Size_def RawMemory_ctor_def Allocate_def
          operator_new_def seq_def tick_def)
  moreover have "\<exists>t. ticks w \<le> t \<and> t \<le> ticks w + n \<and> throws_at T t"
    using True by (intro exI [of _ "ticks w"]) simp
  ultimately show ?thesis
    by simp
next
  case False
  define nb where "nb = next_block w"
  define d where "d = \<lparr>buffer_f = (nb, 0), capacity_f = n\<rparr>"
  have nb0: "nb \<noteq> 0" and hnb: "heap w nb = None"
    using fresh by (simp_all add: fresh_block_def nb_def)
  have ne: "ob \<noteq> nb"
    using hu hnb by auto
  from RawMemory_ctor_ok [OF False, of n] pos obtain w1 where
    alloc: "RawMemory_ctor T n w = (Ok d, w1)" and
    h1: "heap w1 = (heap w)(nb \<mapsto> replicate n Raw)" and
    f1: "objects w1 = objects w" "ticks w1 = Suc (ticks w)" "next_block w1 = Suc nb"
    unfolding nb_def d_def by auto
  let ?ds = "replicate n Raw :: 'a slot list"
  let ?loop = "construct_loop
      (\<lambda>i. copy_construct T (ptr_add (ob, 0) i) (ptr_add (nb, 0) i)) (nb, 0) 0 n"
  have hs1: "heap w1 ob = Some ss" and hd1: "heap w1 nb = Some ?ds"
    using ne hu by (simp_all add: h1)
  have l0: "0 + n \<le> length ss" "0 + n \<le> length ?ds"
    using le by simp_all
  have p0: "\<forall>m. 0 \<le> m \<and> m < 0 + n \<longrightarrow> is_live (ss ! m) \<and> ?ds ! m = Raw"
    using live by simp
  have q0: "\<forall>m<0. is_live (?ds ! m)"
    by simp
  have body: "Vector_copy T u w =
      seq (try_catch_rethrow ?loop (RawMemory_dtor d))
        (\<lambda>_. ret \<lparr>data_f = d, size_f = n\<rparr>) w1"
    using alloc sz buf
    by (simp add: Vector_copy_def Vector_Size_def seq_def uninitialized_copy_n_def
          GetAddress_def d_def)
  from copy_loop_outcomes [OF ne hs1 hd1 l0 p0 q0, of T]
  show ?thesis
  proof (elim disjE exE)
    fix w2 ds'
    assume ok: "?loop w1 = (Ok (), w2) \<and>
        heap w2 nb = Some ds' \<and> length ds' = length ?ds \<and>
        (\<forall>m. 0 \<le> m \<and> m < 0 + n \<longrightarrow> ds' ! m = ss ! m) \<and>
        (\<forall>m. \<not> (0 \<le> m \<and> m < 0 + n) \<longrightarrow> ds' ! m = ?ds ! m) \<and>
        (\<forall>b. b \<noteq> nb \<longrightarrow> heap w2 b = heap w1 b) \<and>
        objects w2 = objects w1 \<and> next_block w2 = next_block w1 \<and>
        ticks w2 = ticks w1 + n \<and>
        (\<forall>t. ticks w1 \<le> t \<and> t < ticks w1 + n \<longrightarrow> \<not> throws_at T t)"
    have run: "Vector_copy T u w = (Ok \<lparr>data_f = d, size_f = n\<rparr>, w2)"
      using ok by (simp add: body seq_def try_catch_rethrow_def ret_def)
    have "ds' = take n ss"
    proof (rule nth_equalityI)
      show "length ds' = length (take n ss)"
        using ok le by simp
    next
      fix i assume "i < length ds'"
      then have "i < n" using ok by simp
      then show "ds' ! i = take n ss ! i" using ok by simp
    qed
    then have hnew: "heap w2 nb = Some (take n ss)"
      using ok by simp
    have frame: "\<forall>b. b \<noteq> nb \<longrightarrow> heap w2 b = heap w b"
      using ok by (simp add: h1)
    have o2: "objects w2 = objects w"
      using ok f1 by simp
    have t2: "\<forall>t. ticks w \<le> t \<and> t \<le> ticks w + n \<longrightarrow> \<not> throws_at T t"
    proof (intro allI impI)
      fix t assume t: "ticks w \<le> t \<and> t \<le> ticks w + n"
      show "\<not> throws_at T t"
      proof (cases "t = ticks w")
        case True
        then show ?thesis using False by simp
      next
        case neq: False
        then have "ticks w1 \<le> t \<and> t < ticks w1 + n" using t f1 by simp
        then show ?thesis using ok by simp
      qed
    qed
    from run hnew frame o2 t2 show ?thesis
      unfolding d_def nb_def by blast
  next
    fix w2 ds'
    assume bad: "?loop w1 = (Throw element_failure, w2) \<and>
        heap w2 nb = Some ds' \<and> length ds' = length ?ds \<and>
        (\<forall>m<0 + n. ds' ! m = Raw) \<and>
        (\<forall>m. 0 + n \<le> m \<longrightarrow> ds' ! m = ?ds ! m) \<and>
        (\<forall>b. b \<noteq> nb \<longrightarrow> heap w2 b = heap w1 b) \<and>
        objects w2 = objects w1 \<and> next_block w2 = next_block w1 \<and>
        (\<exists>t. ticks w1 \<le> t \<and> t < ticks w1 + n \<and> throws_at T t)"
    define w3 where "w3 = emit (Deallocated nb) (w2\<lparr>heap := (heap w2)(nb := None)\<rparr>)"
    have h2: "heap w2 nb = Some ds'"
      using bad by simp
    have dealloc: "RawMemory_dtor d w2 = (Ok (), w3)"
      unfolding w3_def RawMemory_dtor_def d_def using Deallocate_ok [OF nb0 h2] by simp
    have run: "Vector_copy T u w = (Throw element_failure, w3)"
      using bad dealloc by (simp add: body seq_def try_catch_rethrow_def throw_def)
    have h3: "heap w3 = heap w"
    proof (rule ext)
      fix b
      show "heap w3 b = heap w b"
        using bad hnb by (cases "b = nb") (simp_all add: w3_def h1)
    qed
    have o3: "objects w3 = objects w"
      using bad f1 by (simp add: w3_def)
    obtain t where "ticks w1 \<le> t \<and> t < ticks w1 + n \<and> throws_at T t"
      using bad by blast
    then have t3: "\<exists>t. ticks w \<le> t \<and> t \<le> ticks w + n \<and> throws_at T t"
      using f1 by (intro exI [of _ t]) simp
    from run h3 o3 t3 show ?thesis
      by blast
  qed
qed

lemma Vector_destroy_ok:
  assumes inv: "Vector_invariant w v"
  shows "\<exists>w'. Vector_destroy v w = (Ok (), w') \<and> objects w' = objects w \<and>
           (\<forall>b. b \<noteq> fst (buffer_f (data_f v)) \<longrightarrow> heap w' b = heap w b)"
proof (cases "capacity_f (data_f v) = 0")
  case True
  then have "size_f v = 0" "buffer_f (data_f v) = (0, 0)"
    using inv by (simp_all add: Vector_invariant_def nullptr_def)
  then have "Vector_destroy v w = (Ok (), w)"
    by (simp add: Vector_destroy_def GetAddress_def seq_def ret_def RawMemory_dtor_def
          Deallocate_nullptr)
  then show ?thesis by simp
next
  case False
  obtain vb where buf: "buffer_f (data_f v) = (vb, 0)" and vb: "vb \<noteq> 0"
    using inv False by (cases "buffer_f (data_f v)") (simp add: Vector_invariant_def)
  obtain ss where hv: "heap w vb = Some ss" and len: "length ss = capacity_f (data_f v)"
    and all_live: "list_all is_live (take (size_f v) ss)"
    using inv False buf by (auto simp: Vector_invariant_def split: option.splits)
  have le: "0 + size_f v \<le> length ss"
    using inv len by (simp add: Vector_invariant_def)
  have live: "\<forall>m<size_f v. is_live (ss ! (0 + m))"
    using all_live le by (simp add: list_all_length)
  from destroy_n_ok [OF hv le live] obtain w1 where
    destroy: "destroy_n (vb, 0) (size_f v) w = (Ok (), w1)" and
    h1: "heap w1 = (heap w)(vb \<mapsto>
           take 0 ss @ replicate (size_f v) Raw @ drop (0 + size_f v) ss)" and
    f1: "objects w1 = objects w"
    by blast
  have hb1: "heap w1 vb = Some (replicate (size_f v) Raw @ drop (size_f v) ss)"
    by (simp add: h1)
  define w2 where "w2 = emit (Deallocated vb) (w1\<lparr>heap := (heap w1)(vb := None)\<rparr>)"
  have run: "Vector_destroy v w = (Ok (), w2)"
    using destroy buf Deallocate_ok [OF vb hb1]
    by (simp add: Vector_destroy_def GetAddress_def seq_def RawMemory_dtor_def w2_def)
  have "objects w2 = objects w"
    using f1 by (simp add: w2_def)
  moreover have "\<forall>b. b \<noteq> fst (buffer_f (data_f v)) \<longrightarrow> heap w2 b = heap w b"
    using buf by (simp add: w2_def h1)
  ultimately show ?thesis
    using run by blast
qed

lemma Vector_invariant_cong:
  "heap w' (fst (buffer_f (data_f v))) = heap w (fst (buffer_f (data_f v))) \<Longrightarrow>
   Vector_invariant w' v = Vector_invariant w v"
  by (simp add: Vector_invariant_def)

lemma elements_cong:
  "heap w' (fst (buffer_f (data_f v))) = heap w (fst (buffer_f (data_f v))) \<Longrightarrow>
   elements w' v = elements w v"
  by (simp add: elements_def)


subsection \<open>One relocation: it returns with the elements relocated, or it throws\<close>

lemma move_construct_cases:
  assumes "heap w sb = Some ss" "i < length ss" "ss ! i = Live x"
    "heap w db = Some ds" "k < length ds" "ds ! k = Raw"
  shows "move_construct T (sb, i) (db, k) w =
           (if is_nothrow_move_constructible T
            then (Ok (), emit (MoveConstructed (sb, i) (db, k))
                           (set_slot (sb, i) (Live (moved_from T x))
                              (set_slot (db, k) (Live x) w)))
            else if throws_at T (ticks w)
            then (Throw element_failure, w\<lparr>ticks := Suc (ticks w)\<rparr>)
            else (Ok (), emit (MoveConstructed (sb, i) (db, k))
                           (set_slot (sb, i) (Live (moved_from T x))
                              (set_slot (db, k) (Live x) (w\<lparr>ticks := Suc (ticks w)\<rparr>)))))"
  using assms
  by (simp add: move_construct_def slot_at_pair seq_def tick_def ret_def)

lemma copy_step_cases:
  assumes "heap u sb = Some ss" "so + i < length ss" "ss ! (so + i) = Live x"
    "heap u db = Some ds" "dof + i < length ds" "ds ! (dof + i) = Raw" "sb \<noteq> db"
  shows "(\<exists>u1 y. copy_construct T (ptr_add (sb, so) i) (ptr_add (db, dof) i) u = (Ok (), u1) \<and>
            heap u1 = (heap u)(db \<mapsto> ds[dof + i := Live x], sb \<mapsto> ss[so + i := Live y]) \<and>
            objects u1 = objects u \<and> next_block u1 = next_block u \<and> ticks u \<le> ticks u1) \<or>
         (\<exists>u1. copy_construct T (ptr_add (sb, so) i) (ptr_add (db, dof) i) u =
                 (Throw element_failure, u1) \<and>
            heap u1 = heap u \<and> objects u1 = objects u \<and> next_block u1 = next_block u \<and>
            ticks u \<le> ticks u1 \<and> throws_at T (ticks u))"
proof (cases "throws_at T (ticks u)")
  case True
  then have "copy_construct T (sb, so + i) (db, dof + i) u =
      (Throw element_failure, u\<lparr>ticks := Suc (ticks u)\<rparr>)"
    using copy_construct_cases [OF assms(1-6), of T] by simp
  then show ?thesis
    using True by simp
next
  case False
  define u1 where "u1 = emit (CopyConstructed (sb, so + i) (db, dof + i))
      (set_slot (db, dof + i) (Live x) (u\<lparr>ticks := Suc (ticks u)\<rparr>))"
  have run: "copy_construct T (ptr_add (sb, so) i) (ptr_add (db, dof) i) u = (Ok (), u1)"
    using copy_construct_cases [OF assms(1-6), of T] False by (simp add: u1_def)
  have same: "ss[so + i := Live x] = ss"
    using assms(3) by (metis list_update_id)
  have h1: "heap u1 = (heap u)(db \<mapsto> ds[dof + i := Live x], sb \<mapsto> ss[so + i := Live x])"
    unfolding same using assms(1,4,7) by (intro ext) (simp add: u1_def heap_set_slot)
  have f1: "objects u1 = objects u" "next_block u1 = next_block u" "ticks u \<le> ticks u1"
    by (simp_all add: u1_def)
  from run h1 f1 show ?thesis
    by blast
qed

lemma move_step_cases:
  assumes "heap u sb = Some ss" "so + i < length ss" "ss ! (so + i) = Live x"
    "heap u db = Some ds" "dof + i < length ds" "ds ! (dof + i) = Raw" "sb \<noteq> db"
  shows "(\<exists>u1 y. move_construct T (ptr_add (sb, so) i) (ptr_add (db, dof) i) u = (Ok (), u1) \<and>
            heap u1 = (heap u)(db \<mapsto> ds[dof + i := Live x], sb \<mapsto> ss[so + i := Live y]) \<and>
            objects u1 = objects u \<and> next_block u1 = next_block u \<and> ticks u \<le> ticks u1) \<or>
         (\<exists>u1. move_construct T (ptr_add (sb, so) i) (ptr_add (db, dof) i) u =
                 (Throw element_failure, u1) \<and>
            heap u1 = heap u \<and> objects u1 = objects u \<and> next_block u1 = next_block u \<and>
            ticks u \<le> ticks u1 \<and> throws_at T (ticks u))"
proof (cases "\<not> is_nothrow_move_constructible T \<and> throws_at T (ticks u)")
  case True
  then have "move_construct T (sb, so + i) (db, dof + i) u =
      (Throw element_failure, u\<lparr>ticks := Suc (ticks u)\<rparr>)"
    using move_construct_cases [OF assms(1-6), of T] by simp
  then show ?thesis
    using True by simp
next
  case False
  define u0 where "u0 = (if is_nothrow_move_constructible T then u
      else u\<lparr>ticks := Suc (ticks u)\<rparr>)"
  define u1 where "u1 = emit (MoveConstructed (sb, so + i) (db, dof + i))
      (set_slot (sb, so + i) (Live (moved_from T x)) (set_slot (db, dof + i) (Live x) u0))"
  have run: "move_construct T (ptr_add (sb, so) i) (ptr_add (db, dof) i) u = (Ok (), u1)"
    using move_construct_cases [OF assms(1-6), of T] False by (auto simp: u1_def u0_def)
  have h0: "heap u0 = heap u" "objects u0 = objects u" "next_block u0 = next_block u"
      "ticks u \<le> ticks u0"
    by (simp_all add: u0_def)
  have h1: "heap u1 = (heap u)(db \<mapsto> ds[dof + i := Live x],
                               sb \<mapsto> ss[so + i := Live (moved_from T x)])"
    using assms(1,4,7) by (intro ext) (simp add: u1_def heap_set_slot h0)
  have f1: "objects u1 = objects u" "next_block u1 = next_block u" "ticks u \<le> ticks u1"
    using h0 by (simp_all add: u1_def)
  from run h1 f1 show ?thesis
    by blast
qed

lemma relocate_loop_outcomes:
  assumes step: "\<And>i u ss ds x.
      \<lbrakk>heap u sb = Some ss; so + i < length ss; ss ! (so + i) = Live x;
       heap u db = Some ds; dof + i < length ds; ds ! (dof + i) = Raw\<rbrakk>
      \<Longrightarrow> (\<exists>u1 y. step i u = (Ok (), u1) \<and>
             heap u1 = (heap u)(db \<mapsto> ds[dof + i := Live x], sb \<mapsto> ss[so + i := Live y]) \<and>
             objects u1 = objects u \<and> next_block u1 = next_block u \<and> ticks u \<le> ticks u1) \<or>
          (\<exists>u1. step i u = (Throw element_failure, u1) \<and>
             heap u1 = heap u \<and> objects u1 = objects u \<and> next_block u1 = next_block u \<and>
             ticks u \<le> ticks u1 \<and> throws_at T (ticks u))"
    and "sb \<noteq> db"
    and "heap w sb = Some ss" "heap w db = Some ds"
    and "so + (j + k) \<le> length ss" "dof + (j + k) \<le> length ds"
    and "\<forall>m. j \<le> m \<and> m < j + k \<longrightarrow> is_live (ss ! (so + m)) \<and> ds ! (dof + m) = Raw"
    and "\<forall>m<j. is_live (ds ! (dof + m))"
  shows "(\<exists>w' ss' ds'. construct_loop step (db, dof) j k w = (Ok (), w') \<and>
            heap w' sb = Some ss' \<and> heap w' db = Some ds' \<and>
            length ss' = length ss \<and> length ds' = length ds \<and>
            (\<forall>m. j \<le> m \<and> m < j + k \<longrightarrow>
                 ds' ! (dof + m) = ss ! (so + m) \<and> is_live (ss' ! (so + m))) \<and>
            (\<forall>i. \<not> (dof + j \<le> i \<and> i < dof + (j + k)) \<longrightarrow> ds' ! i = ds ! i) \<and>
            (\<forall>i. \<not> (so + j \<le> i \<and> i < so + (j + k)) \<longrightarrow> ss' ! i = ss ! i) \<and>
            (\<forall>b. b \<noteq> sb \<longrightarrow> b \<noteq> db \<longrightarrow> heap w' b = heap w b) \<and>
            objects w' = objects w \<and> next_block w' = next_block w \<and> ticks w \<le> ticks w') \<or>
         (\<exists>w'. construct_loop step (db, dof) j k w = (Throw element_failure, w') \<and>
            (\<exists>t\<ge>ticks w. throws_at T t))"
  using assms(3-)
proof (induction k arbitrary: j w ss ds)
  case 0
  then show ?case by auto
next
  case (Suc k)
  have j_ss: "so + j < length ss" and j_ds: "dof + j < length ds"
    using Suc.prems(3,4) by simp_all
  have "is_live (ss ! (so + j))" and raw: "ds ! (dof + j) = Raw"
    using Suc.prems(5) by simp_all
  then obtain x where x: "ss ! (so + j) = Live x"
    by (cases "ss ! (so + j)") simp_all
  from step [OF Suc.prems(1) j_ss x Suc.prems(2) j_ds raw]
  show ?case
  proof (elim disjE exE)
    fix u1
    assume thrown: "step j w = (Throw element_failure, u1) \<and>
        heap u1 = heap w \<and> objects u1 = objects w \<and> next_block u1 = next_block w \<and>
        ticks w \<le> ticks u1 \<and> throws_at T (ticks w)"
    have hd1: "heap u1 db = Some ds"
      using thrown Suc.prems(2) by simp
    have lv: "\<forall>m<j. is_live (ds ! (dof + m))"
      using Suc.prems(6) .
    have lj: "dof + j \<le> length ds"
      using j_ds by simp
    from destroy_n_ok [OF hd1 lj lv] obtain u2 where
      destroy: "destroy_n (db, dof) j u1 = (Ok (), u2)"
      by blast
    have run: "construct_loop step (db, dof) j (Suc k) w = (Throw element_failure, u2)"
      using thrown destroy by (simp add: seq_def throw_def)
    have "\<exists>t\<ge>ticks w. throws_at T t"
      using thrown by (intro exI [of _ "ticks w"]) simp
    with run show ?thesis
      by blast
  next
    fix u1 y
    assume ok1: "step j w = (Ok (), u1) \<and>
        heap u1 = (heap w)(db \<mapsto> ds[dof + j := Live x], sb \<mapsto> ss[so + j := Live y]) \<and>
        objects u1 = objects w \<and> next_block u1 = next_block w \<and> ticks w \<le> ticks u1"
    let ?ss1 = "ss[so + j := Live y]" and ?ds1 = "ds[dof + j := Live x]"
    have hs1: "heap u1 sb = Some ?ss1" and hd1: "heap u1 db = Some ?ds1"
      using ok1 \<open>sb \<noteq> db\<close> by simp_all
    have frame1: "\<forall>b. b \<noteq> sb \<longrightarrow> b \<noteq> db \<longrightarrow> heap u1 b = heap w b"
      using ok1 by simp
    have l1: "so + (Suc j + k) \<le> length ?ss1" "dof + (Suc j + k) \<le> length ?ds1"
      using Suc.prems(3,4) by simp_all
    have p1: "\<forall>m. Suc j \<le> m \<and> m < Suc j + k \<longrightarrow>
                is_live (?ss1 ! (so + m)) \<and> ?ds1 ! (dof + m) = Raw"
      using Suc.prems(5) by simp
    have q1: "\<forall>m<Suc j. is_live (?ds1 ! (dof + m))"
      using Suc.prems(6) j_ds by (simp add: nth_list_update less_Suc_eq)
    from Suc.IH [OF hs1 hd1 l1 p1 q1]
    show ?thesis
    proof (elim disjE exE)
      fix w'
      assume bad: "construct_loop step (db, dof) (Suc j) k u1 = (Throw element_failure, w') \<and>
          (\<exists>t\<ge>ticks u1. throws_at T t)"
      have run: "construct_loop step (db, dof) j (Suc k) w = (Throw element_failure, w')"
        using ok1 bad by simp
      obtain t where "ticks u1 \<le> t" "throws_at T t"
        using bad by blast
      then have "\<exists>t\<ge>ticks w. throws_at T t"
        using ok1 by (intro exI [of _ t]) simp
      with run show ?thesis
        by blast
    next
      fix w' ss' ds'
      assume ok: "construct_loop step (db, dof) (Suc j) k u1 = (Ok (), w') \<and>
          heap w' sb = Some ss' \<and> heap w' db = Some ds' \<and>
          length ss' = length ?ss1 \<and> length ds' = length ?ds1 \<and>
          (\<forall>m. Suc j \<le> m \<and> m < Suc j + k \<longrightarrow>
               ds' ! (dof + m) = ?ss1 ! (so + m) \<and> is_live (ss' ! (so + m))) \<and>
          (\<forall>i. \<not> (dof + Suc j \<le> i \<and> i < dof + (Suc j + k)) \<longrightarrow> ds' ! i = ?ds1 ! i) \<and>
          (\<forall>i. \<not> (so + Suc j \<le> i \<and> i < so + (Suc j + k)) \<longrightarrow> ss' ! i = ?ss1 ! i) \<and>
          (\<forall>b. b \<noteq> sb \<longrightarrow> b \<noteq> db \<longrightarrow> heap w' b = heap u1 b) \<and>
          objects w' = objects u1 \<and> next_block w' = next_block u1 \<and> ticks u1 \<le> ticks w'"
      have run: "construct_loop step (db, dof) j (Suc k) w = (Ok (), w')"
        using ok1 ok by simp
      have hs': "heap w' sb = Some ss'" and hd': "heap w' db = Some ds'"
        and len': "length ss' = length ss" "length ds' = length ds"
        using ok by simp_all
      have in_rest: "\<forall>m. Suc j \<le> m \<and> m < Suc j + k \<longrightarrow>
          ds' ! (dof + m) = ?ss1 ! (so + m) \<and> is_live (ss' ! (so + m))"
        and out_d: "\<forall>i. \<not> (dof + Suc j \<le> i \<and> i < dof + (Suc j + k)) \<longrightarrow> ds' ! i = ?ds1 ! i"
        and out_s: "\<forall>i. \<not> (so + Suc j \<le> i \<and> i < so + (Suc j + k)) \<longrightarrow> ss' ! i = ?ss1 ! i"
        using ok by simp_all
      have dj: "ds' ! (dof + j) = Live x"
        using out_d j_ds by simp
      have sj: "ss' ! (so + j) = Live y"
        using out_s j_ss by simp
      have inside: "\<forall>m. j \<le> m \<and> m < j + Suc k \<longrightarrow>
          ds' ! (dof + m) = ss ! (so + m) \<and> is_live (ss' ! (so + m))"
      proof (intro allI impI)
        fix m assume m: "j \<le> m \<and> m < j + Suc k"
        show "ds' ! (dof + m) = ss ! (so + m) \<and> is_live (ss' ! (so + m))"
        proof (cases "m = j")
          case True
          then show ?thesis using dj sj x by simp
        next
          case False
          then have "Suc j \<le> m \<and> m < Suc j + k" using m by simp
          moreover have "so + m \<noteq> so + j" using False by simp
          ultimately show ?thesis using in_rest by simp
        qed
      qed
      have outside_d: "\<forall>i. \<not> (dof + j \<le> i \<and> i < dof + (j + Suc k)) \<longrightarrow> ds' ! i = ds ! i"
      proof (intro allI impI)
        fix i assume i: "\<not> (dof + j \<le> i \<and> i < dof + (j + Suc k))"
        then have "\<not> (dof + Suc j \<le> i \<and> i < dof + (Suc j + k))" and "i \<noteq> dof + j" by auto
        then show "ds' ! i = ds ! i" using out_d by simp
      qed
      have outside_s: "\<forall>i. \<not> (so + j \<le> i \<and> i < so + (j + Suc k)) \<longrightarrow> ss' ! i = ss ! i"
      proof (intro allI impI)
        fix i assume i: "\<not> (so + j \<le> i \<and> i < so + (j + Suc k))"
        then have "\<not> (so + Suc j \<le> i \<and> i < so + (Suc j + k))" and "i \<noteq> so + j" by auto
        then show "ss' ! i = ss ! i" using out_s by simp
      qed
      have frame': "\<forall>b. b \<noteq> sb \<longrightarrow> b \<noteq> db \<longrightarrow> heap w' b = heap w b"
        using ok frame1 by simp
      have o': "objects w' = objects w" "next_block w' = next_block w" "ticks w \<le> ticks w'"
        using ok ok1 by simp_all
      from run hs' hd' len' inside outside_d outside_s frame' o' show ?thesis
        by blast
    qed
  qed
qed

lemma MoveElements_trace_events:
  assumes run: "MoveElements T from_p n to_p w = (Ok r, w')"
  shows "trace w' = trace w @
           map (\<lambda>j. if is_nothrow_move_constructible T \<or> \<not> is_copy_constructible T
                     then MoveConstructed (ptr_add from_p j) (ptr_add to_p j)
                     else CopyConstructed (ptr_add from_p j) (ptr_add to_p j)) [0..<n] @
           map (\<lambda>j. Destroyed (ptr_add from_p j)) [0..<n]"
proof -
  from run obtain w1 where
    loop: "(if is_nothrow_move_constructible T \<or> \<not> is_copy_constructible T
            then uninitialized_move_n T from_p n to_p
            else uninitialized_copy_n T from_p n to_p) w = (Ok (), w1)" and
    destroy: "destroy_n from_p n w1 = (Ok r, w')"
    by (auto simp: MoveElements_def seq_def split: prod.splits outcome.splits)
  have tail: "trace w' = trace w1 @ map (\<lambda>j. Destroyed (ptr_add from_p j)) [0..<n]"
    using destroy by (rule destroy_n_trace)
  show ?thesis
  proof (cases "is_nothrow_move_constructible T \<or> \<not> is_copy_constructible T")
    case True
    then have "construct_loop (\<lambda>i. move_construct T (ptr_add from_p i) (ptr_add to_p i))
        to_p 0 n w = (Ok (), w1)"
      using loop by (simp add: uninitialized_move_n_def)
    then have "trace w1 = trace w @
        map (\<lambda>j. MoveConstructed (ptr_add from_p j) (ptr_add to_p j)) [0..<0 + n]"
      by (rule construct_loop_trace [rotated]) (rule move_construct_trace)
    then show ?thesis using True tail by simp
  next
    case False
    then have "construct_loop (\<lambda>i. copy_construct T (ptr_add from_p i) (ptr_add to_p i))
        to_p 0 n w = (Ok (), w1)"
      using loop by (simp add: uninitialized_copy_n_def)
    then have "trace w1 = trace w @
        map (\<lambda>j. CopyConstructed (ptr_add from_p j) (ptr_add to_p j)) [0..<0 + n]"
      by (rule construct_loop_trace [rotated]) (rule copy_construct_trace)
    then show ?thesis using False tail by simp
  qed
qed

lemma MoveElements_trace:
  "MoveElements T from_p n to_p w = (Ok r, w') \<Longrightarrow>
   trace w' = trace w @ relocation_trace T from_p n to_p"
  unfolding relocation_trace_def by (rule MoveElements_trace_events)

lemma MoveElements_outcomes:
  assumes ne: "sb \<noteq> db"
    and hs: "heap w sb = Some ss" and hd: "heap w db = Some ds"
    and ls: "so + n \<le> length ss" and ld: "dof + n \<le> length ds"
    and pre: "\<forall>m<n. is_live (ss ! (so + m)) \<and> ds ! (dof + m) = Raw"
  shows "(\<exists>w' ss' ds'. MoveElements T (sb, so) n (db, dof) w = (Ok (), w') \<and>
            heap w' sb = Some ss' \<and> heap w' db = Some ds' \<and>
            length ss' = length ss \<and> length ds' = length ds \<and>
            (\<forall>m<n. ds' ! (dof + m) = ss ! (so + m) \<and> ss' ! (so + m) = Raw) \<and>
            (\<forall>i. \<not> (dof \<le> i \<and> i < dof + n) \<longrightarrow> ds' ! i = ds ! i) \<and>
            (\<forall>i. \<not> (so \<le> i \<and> i < so + n) \<longrightarrow> i < length ss \<longrightarrow> ss' ! i = ss ! i) \<and>
            (\<forall>b. b \<noteq> sb \<longrightarrow> b \<noteq> db \<longrightarrow> heap w' b = heap w b) \<and>
            objects w' = objects w \<and> next_block w' = next_block w \<and>
            ticks w \<le> ticks w' \<and>
            trace w' = trace w @ relocation_trace T (sb, so) n (db, dof)) \<or>
         (\<exists>w'. MoveElements T (sb, so) n (db, dof) w = (Throw element_failure, w') \<and>
            (\<exists>t\<ge>ticks w. throws_at T t))"
proof -
  define loop where "loop =
    (if is_nothrow_move_constructible T \<or> \<not> is_copy_constructible T
     then uninitialized_move_n T (sb, so) n (db, dof)
     else uninitialized_copy_n T (sb, so) n (db, dof))"
  have pre': "\<forall>m. 0 \<le> m \<and> m < 0 + n \<longrightarrow> is_live (ss ! (so + m)) \<and> ds ! (dof + m) = Raw"
    using pre by simp
  have l0: "so + (0 + n) \<le> length ss" "dof + (0 + n) \<le> length ds"
    using ls ld by simp_all
  have q0: "\<forall>m<0. is_live (ds ! (dof + m))"
    by simp
  have cases: "(\<exists>w1 ss1 ds1. loop w = (Ok (), w1) \<and>
            heap w1 sb = Some ss1 \<and> heap w1 db = Some ds1 \<and>
            length ss1 = length ss \<and> length ds1 = length ds \<and>
            (\<forall>m. 0 \<le> m \<and> m < 0 + n \<longrightarrow>
                 ds1 ! (dof + m) = ss ! (so + m) \<and> is_live (ss1 ! (so + m))) \<and>
            (\<forall>i. \<not> (dof + 0 \<le> i \<and> i < dof + (0 + n)) \<longrightarrow> ds1 ! i = ds ! i) \<and>
            (\<forall>i. \<not> (so + 0 \<le> i \<and> i < so + (0 + n)) \<longrightarrow> ss1 ! i = ss ! i) \<and>
            (\<forall>b. b \<noteq> sb \<longrightarrow> b \<noteq> db \<longrightarrow> heap w1 b = heap w b) \<and>
            objects w1 = objects w \<and> next_block w1 = next_block w \<and> ticks w \<le> ticks w1) \<or>
         (\<exists>w1. loop w = (Throw element_failure, w1) \<and> (\<exists>t\<ge>ticks w. throws_at T t))"
  proof (cases "is_nothrow_move_constructible T \<or> \<not> is_copy_constructible T")
    case True
    then have eq: "loop = construct_loop
        (\<lambda>i. move_construct T (ptr_add (sb, so) i) (ptr_add (db, dof) i)) (db, dof) 0 n"
      by (simp only: loop_def uninitialized_move_n_def if_True)
    show ?thesis
      unfolding eq
    proof (rule relocate_loop_outcomes)
      fix i and u :: "'a world" and ss ds :: "'a slot list" and x :: 'a
      assume "heap u sb = Some ss" "so + i < length ss" "ss ! (so + i) = Live x"
        "heap u db = Some ds" "dof + i < length ds" "ds ! (dof + i) = Raw"
      then show "(\<exists>u1 y. move_construct T (ptr_add (sb, so) i) (ptr_add (db, dof) i) u = (Ok (), u1) \<and>
            heap u1 = (heap u)(db \<mapsto> ds[dof + i := Live x], sb \<mapsto> ss[so + i := Live y]) \<and>
            objects u1 = objects u \<and> next_block u1 = next_block u \<and> ticks u \<le> ticks u1) \<or>
         (\<exists>u1. move_construct T (ptr_add (sb, so) i) (ptr_add (db, dof) i) u =
                 (Throw element_failure, u1) \<and>
            heap u1 = heap u \<and> objects u1 = objects u \<and> next_block u1 = next_block u \<and>
            ticks u \<le> ticks u1 \<and> throws_at T (ticks u))"
        using ne by (rule move_step_cases)
    qed (fact ne hs hd l0 pre' q0)+
  next
    case False
    then have eq: "loop = construct_loop
        (\<lambda>i. copy_construct T (ptr_add (sb, so) i) (ptr_add (db, dof) i)) (db, dof) 0 n"
      by (simp only: loop_def uninitialized_copy_n_def if_False)
    show ?thesis
      unfolding eq
    proof (rule relocate_loop_outcomes)
      fix i and u :: "'a world" and ss ds :: "'a slot list" and x :: 'a
      assume "heap u sb = Some ss" "so + i < length ss" "ss ! (so + i) = Live x"
        "heap u db = Some ds" "dof + i < length ds" "ds ! (dof + i) = Raw"
      then show "(\<exists>u1 y. copy_construct T (ptr_add (sb, so) i) (ptr_add (db, dof) i) u = (Ok (), u1) \<and>
            heap u1 = (heap u)(db \<mapsto> ds[dof + i := Live x], sb \<mapsto> ss[so + i := Live y]) \<and>
            objects u1 = objects u \<and> next_block u1 = next_block u \<and> ticks u \<le> ticks u1) \<or>
         (\<exists>u1. copy_construct T (ptr_add (sb, so) i) (ptr_add (db, dof) i) u =
                 (Throw element_failure, u1) \<and>
            heap u1 = heap u \<and> objects u1 = objects u \<and> next_block u1 = next_block u \<and>
            ticks u \<le> ticks u1 \<and> throws_at T (ticks u))"
        using ne by (rule copy_step_cases)
    qed (fact ne hs hd l0 pre' q0)+
  qed
  have unfold: "MoveElements T (sb, so) n (db, dof) = seq loop (\<lambda>_. destroy_n (sb, so) n)"
    by (simp add: MoveElements_def loop_def)
  from cases show ?thesis
  proof (elim disjE exE)
    fix w1
    assume bad: "loop w = (Throw element_failure, w1) \<and> (\<exists>t\<ge>ticks w. throws_at T t)"
    then have "MoveElements T (sb, so) n (db, dof) w = (Throw element_failure, w1)"
      by (simp add: unfold seq_def)
    with bad show ?thesis
      by blast
  next
    fix w1 ss1 ds1
    assume all: "loop w = (Ok (), w1) \<and>
        heap w1 sb = Some ss1 \<and> heap w1 db = Some ds1 \<and>
        length ss1 = length ss \<and> length ds1 = length ds \<and>
        (\<forall>m. 0 \<le> m \<and> m < 0 + n \<longrightarrow>
             ds1 ! (dof + m) = ss ! (so + m) \<and> is_live (ss1 ! (so + m))) \<and>
        (\<forall>i. \<not> (dof + 0 \<le> i \<and> i < dof + (0 + n)) \<longrightarrow> ds1 ! i = ds ! i) \<and>
        (\<forall>i. \<not> (so + 0 \<le> i \<and> i < so + (0 + n)) \<longrightarrow> ss1 ! i = ss ! i) \<and>
        (\<forall>b. b \<noteq> sb \<longrightarrow> b \<noteq> db \<longrightarrow> heap w1 b = heap w b) \<and>
        objects w1 = objects w \<and> next_block w1 = next_block w \<and> ticks w \<le> ticks w1"
    have loop: "loop w = (Ok (), w1)"
      and h1: "heap w1 sb = Some ss1" "heap w1 db = Some ds1"
      and len1: "length ss1 = length ss" "length ds1 = length ds"
      and frame1: "\<forall>b. b \<noteq> sb \<longrightarrow> b \<noteq> db \<longrightarrow> heap w1 b = heap w b"
      and f1: "objects w1 = objects w" "next_block w1 = next_block w" "ticks w \<le> ticks w1"
      using all by simp_all
    have inside: "\<forall>m<n. ds1 ! (dof + m) = ss ! (so + m) \<and> is_live (ss1 ! (so + m))"
      using all by simp
    have out_d: "\<forall>i. \<not> (dof \<le> i \<and> i < dof + n) \<longrightarrow> ds1 ! i = ds ! i"
      using all by simp
    have out_s: "\<forall>i. \<not> (so \<le> i \<and> i < so + n) \<longrightarrow> ss1 ! i = ss ! i"
      using all by simp
    have live1: "\<forall>m<n. is_live (ss1 ! (so + m))"
      using inside by simp
    have ln: "so + n \<le> length ss1"
      using ls len1 by simp
    from destroy_n_ok [OF h1(1) ln live1] obtain w2 where
      destroy: "destroy_n (sb, so) n w1 = (Ok (), w2)" and
      h2: "heap w2 = (heap w1)(sb \<mapsto> take so ss1 @ replicate n Raw @ drop (so + n) ss1)" and
      f2: "objects w2 = objects w1" "ticks w2 = ticks w1" "next_block w2 = next_block w1"
      by blast
    define ss2 where "ss2 = take so ss1 @ replicate n Raw @ drop (so + n) ss1"
    have run: "MoveElements T (sb, so) n (db, dof) w = (Ok (), w2)"
      using loop destroy by (simp add: unfold seq_def)
    have s2: "heap w2 sb = Some ss2" and d2: "heap w2 db = Some ds1"
      using ne h1 by (simp_all add: h2 ss2_def)
    have len2: "length ss2 = length ss"
      using ln len1 by (simp add: ss2_def)
    have raw2: "\<forall>m<n. ss2 ! (so + m) = Raw"
      using ln by (simp add: ss2_def nth_append)
    have in2: "\<forall>m<n. ds1 ! (dof + m) = ss ! (so + m) \<and> ss2 ! (so + m) = Raw"
      using inside raw2 by simp
    have keep2: "\<forall>i. \<not> (so \<le> i \<and> i < so + n) \<longrightarrow> i < length ss \<longrightarrow> ss2 ! i = ss ! i"
    proof (intro allI impI)
      fix i assume i: "\<not> (so \<le> i \<and> i < so + n)" and il: "i < length ss"
      have "ss2 ! i = ss1 ! i"
      proof (cases "i < so")
        case True
        then show ?thesis using ln by (simp add: ss2_def nth_append)
      next
        case False
        then have ge: "so + n \<le> i" using i by simp
        have a: "\<not> i < so" and b: "\<not> i - so < n"
          using ge by simp_all
        have "ss2 ! i = drop (so + n) ss1 ! (i - so - n)"
          using ln a b by (simp add: ss2_def nth_append)
        also have "\<dots> = ss1 ! i"
          using ge il len1 by simp
        finally show ?thesis .
      qed
      then show "ss2 ! i = ss ! i" using out_s i by simp
    qed
    have frame2: "\<forall>b. b \<noteq> sb \<longrightarrow> b \<noteq> db \<longrightarrow> heap w2 b = heap w b"
      using frame1 by (simp add: h2)
    have o2: "objects w2 = objects w" "next_block w2 = next_block w" "ticks w \<le> ticks w2"
      using f1 f2 by simp_all
    have tr: "trace w2 = trace w @ relocation_trace T (sb, so) n (db, dof)"
      using run by (rule MoveElements_trace)
    from run s2 d2 len2 len1(2) in2 out_d keep2 frame2 o2 tr show ?thesis
      by blast
  qed
qed

subsection \<open>The events of a returning call\<close>

lemma seq_OkE:
  assumes "seq m k w = (Ok r, w')"
  obtains a w1 where "m w = (Ok a, w1)" and "k a w1 = (Ok r, w')"
  using assms by (auto simp: seq_def split: prod.splits outcome.splits)

lemma try_catch_rethrow_Ok:
  "try_catch_rethrow m h w = (Ok r, w') \<Longrightarrow> m w = (Ok r, w')"
  by (auto simp: try_catch_rethrow_def seq_throw_not_Ok split: prod.splits outcome.splits)

lemma RawMemory_ctor_Ok:
  assumes "RawMemory_ctor T n w = (Ok d, w1)" and "n \<noteq> 0"
  shows "d = \<lparr>buffer_f = (next_block w, 0), capacity_f = n\<rparr>"
    and "trace w1 = trace w @ [Allocated (next_block w) n]"
  using assms
  by (auto simp: RawMemory_ctor_def Allocate_def operator_new_def seq_def tick_def ret_def
        split: if_splits)

lemma construct_at_trace:
  "construct_at T p x w = (Ok r, w1) \<Longrightarrow> trace w1 = trace w @ [Constructed p]"
  by (auto simp: construct_at_def seq_def tick_def split: option.splits slot.splits if_splits)

lemma RawMemory_dtor_trace:
  "RawMemory_dtor m w = (Ok r, w1) \<Longrightarrow> trace w1 = trace w @ release_trace (buffer_f m)"
  by (auto simp: RawMemory_dtor_def Deallocate_def operator_delete_def release_trace_def
        split: if_splits)

lemma put_object_trace:
  "put_object a v w = (Ok r, w1) \<Longrightarrow> trace w1 = trace w"
  by (auto simp: put_object_def)

lemma update_object_trace:
  "update_object a f w = (Ok r, w1) \<Longrightarrow> trace w1 = trace w"
  by (auto simp: update_object_def with_object_def put_object_def split: option.splits)

lemma adopt_trace:
  assumes "(case RawMemory_Swap (data_f v) new_data of
              (d, new_data') \<Rightarrow>
                seq (put_object this (v\<lparr>data_f := d\<rparr>)) (\<lambda>_. RawMemory_dtor new_data')) w
           = (Ok r, w')"
  shows "trace w' = trace w @ release_trace (buffer_f (data_f v))"
proof -
  from assms obtain a w1 where
    put: "put_object this (v\<lparr>data_f := data_f v
            \<lparr>buffer_f := buffer_f new_data, capacity_f := capacity_f new_data\<rparr>\<rparr>) w = (Ok a, w1)"
    and dtor: "RawMemory_dtor (new_data\<lparr>buffer_f := buffer_f (data_f v),
            capacity_f := capacity_f (data_f v)\<rparr>) w1 = (Ok r, w')"
    by (auto simp: RawMemory_Swap_def elim: seq_OkE)
  show ?thesis
    using put_object_trace [OF put] RawMemory_dtor_trace [OF dtor] by simp
qed

lemma size_update_trace:
  assumes "seq (update_object this f) (\<lambda>_. with_object this (\<lambda>u. ret (g u))) w = (Ok r, w')"
  shows "trace w' = trace w"
proof -
  from assms obtain a w1 where
    upd: "update_object this f w = (Ok a, w1)" and
    rest: "with_object this (\<lambda>u. ret (g u)) w1 = (Ok r, w')"
    by (elim seq_OkE)
  have "w' = w1"
    using rest by (auto simp: with_object_def ret_def split: option.splits)
  then show ?thesis
    using update_object_trace [OF upd] by simp
qed

lemma Reserve_trace:
  assumes obj: "objects w this = Some v"
    and grow: "capacity_f (data_f v) < new_capacity"
    and run: "Reserve T this new_capacity w = (Ok r, w')"
  shows "trace w' = trace w @ [Allocated (next_block w) new_capacity] @
           relocation_trace T (buffer_f (data_f v)) (size_f v) (next_block w, 0) @
           release_trace (buffer_f (data_f v))"
proof -
  have start: "Reserve T this new_capacity w =
      seq (RawMemory_ctor T new_capacity) (\<lambda>new_data.
      seq (try_catch_rethrow
             (MoveElements T (GetAddress (data_f v)) (size_f v) (GetAddress new_data))
             (RawMemory_dtor new_data)) (\<lambda>_.
      case RawMemory_Swap (data_f v) new_data of
        (d, new_data') \<Rightarrow>
          seq (put_object this (v\<lparr>data_f := d\<rparr>)) (\<lambda>_. RawMemory_dtor new_data'))) w"
    using obj grow by (simp add: Reserve_def with_object_def RawMemory_Capacity_def)
  from run [unfolded start] obtain new_data w1 a w2 where
    alloc: "RawMemory_ctor T new_capacity w = (Ok new_data, w1)" and
    move: "try_catch_rethrow
             (MoveElements T (GetAddress (data_f v)) (size_f v) (GetAddress new_data))
             (RawMemory_dtor new_data) w1 = (Ok a, w2)" and
    adopt: "(case RawMemory_Swap (data_f v) new_data of
              (d, new_data') \<Rightarrow>
                seq (put_object this (v\<lparr>data_f := d\<rparr>)) (\<lambda>_. RawMemory_dtor new_data')) w2
            = (Ok r, w')"
    by (elim seq_OkE)
  have n0: "new_capacity \<noteq> 0"
    using grow by simp
  have nd: "buffer_f new_data = (next_block w, 0)"
    using RawMemory_ctor_Ok(1) [OF alloc n0] by simp
  have t1: "trace w1 = trace w @ [Allocated (next_block w) new_capacity]"
    using RawMemory_ctor_Ok(2) [OF alloc n0] .
  have t2: "trace w2 = trace w1 @
      relocation_trace T (buffer_f (data_f v)) (size_f v) (next_block w, 0)"
    using MoveElements_trace [OF try_catch_rethrow_Ok [OF move]]
    by (simp add: nd GetAddress_def)
  show ?thesis
    using adopt_trace [OF adopt] t1 t2 by simp
qed

lemma EmplaceBack_trace:
  assumes obj: "objects w this = Some v"
    and full: "\<not> size_f v < capacity_f (data_f v)"
    and run: "EmplaceBack T this x w = (Ok r, w')"
  shows "trace w' = trace w @
           [Allocated (next_block w) (if size_f v = 0 then 1 else size_f v * 2),
            Constructed (next_block w, size_f v)] @
           relocation_trace T (buffer_f (data_f v)) (size_f v) (next_block w, 0) @
           release_trace (buffer_f (data_f v))"
proof -
  define nc where "nc = (if size_f v = 0 then 1 else size_f v * 2)"
  have start: "EmplaceBack T this x w =
      seq (seq (RawMemory_ctor T nc) (\<lambda>new_data.
           seq (try_catch_rethrow
                  (seq (construct_at T (RawMemory_plus new_data (size_f v)) x) (\<lambda>_.
                   MoveElements T (GetAddress (data_f v)) (size_f v) (GetAddress new_data)))
                  (RawMemory_dtor new_data)) (\<lambda>_.
           case RawMemory_Swap (data_f v) new_data of
             (d, new_data') \<Rightarrow>
               seq (put_object this (v\<lparr>data_f := d\<rparr>)) (\<lambda>_. RawMemory_dtor new_data'))))
        (\<lambda>_. seq (update_object this (\<lambda>u. u\<lparr>size_f := Suc (size_f u)\<rparr>)) (\<lambda>_.
              with_object this (\<lambda>u. ret (Vector_index u (size_f u - 1))))) w"
    using obj full
    by (simp add: EmplaceBack_def with_object_def Vector_Capacity_def RawMemory_Capacity_def
          nc_def)
  from run [unfolded start] obtain b w3 where
    growth: "seq (RawMemory_ctor T nc) (\<lambda>new_data.
           seq (try_catch_rethrow
                  (seq (construct_at T (RawMemory_plus new_data (size_f v)) x) (\<lambda>_.
                   MoveElements T (GetAddress (data_f v)) (size_f v) (GetAddress new_data)))
                  (RawMemory_dtor new_data)) (\<lambda>_.
           case RawMemory_Swap (data_f v) new_data of
             (d, new_data') \<Rightarrow>
               seq (put_object this (v\<lparr>data_f := d\<rparr>)) (\<lambda>_. RawMemory_dtor new_data'))) w
        = (Ok b, w3)" and
    tail: "seq (update_object this (\<lambda>u. u\<lparr>size_f := Suc (size_f u)\<rparr>)) (\<lambda>_.
              with_object this (\<lambda>u. ret (Vector_index u (size_f u - 1)))) w3 = (Ok r, w')"
    by (rule seq_OkE)
  from growth obtain new_data w1 a w2 where
    alloc: "RawMemory_ctor T nc w = (Ok new_data, w1)" and
    body: "try_catch_rethrow
             (seq (construct_at T (RawMemory_plus new_data (size_f v)) x) (\<lambda>_.
              MoveElements T (GetAddress (data_f v)) (size_f v) (GetAddress new_data)))
             (RawMemory_dtor new_data) w1 = (Ok a, w2)" and
    adopt: "(case RawMemory_Swap (data_f v) new_data of
              (d, new_data') \<Rightarrow>
                seq (put_object this (v\<lparr>data_f := d\<rparr>)) (\<lambda>_. RawMemory_dtor new_data')) w2
            = (Ok b, w3)"
    by (elim seq_OkE)
  from try_catch_rethrow_Ok [OF body] obtain c w1a where
    cons: "construct_at T (RawMemory_plus new_data (size_f v)) x w1 = (Ok c, w1a)" and
    move: "MoveElements T (GetAddress (data_f v)) (size_f v) (GetAddress new_data) w1a
           = (Ok a, w2)"
    by (rule seq_OkE)
  have n0: "nc \<noteq> 0"
    by (simp add: nc_def)
  have nd: "buffer_f new_data = (next_block w, 0)"
    using RawMemory_ctor_Ok(1) [OF alloc n0] by simp
  have t1: "trace w1 = trace w @ [Allocated (next_block w) nc]"
    using RawMemory_ctor_Ok(2) [OF alloc n0] .
  have t1a: "trace w1a = trace w1 @ [Constructed (next_block w, size_f v)]"
    using construct_at_trace [OF cons] by (simp add: RawMemory_plus_def nd)
  have t2: "trace w2 = trace w1a @
      relocation_trace T (buffer_f (data_f v)) (size_f v) (next_block w, 0)"
    using MoveElements_trace [OF move] by (simp add: nd GetAddress_def)
  have t3: "trace w3 = trace w2 @ release_trace (buffer_f (data_f v))"
    using adopt_trace [OF adopt] .
  have t4: "trace w' = trace w3"
    using size_update_trace [OF tail] .
  show ?thesis
    using t1 t1a t2 t3 t4 by (simp add: nc_def)
qed

lemma ptr_diff_Ok:
  assumes "ptr_diff p q w = (Ok i, w1)"
  shows "i = snd p - snd q" and "w1 = w" and "fst p = fst q" and "snd q \<le> snd p"
  using assms by (auto simp: ptr_diff_def ret_def undef_def split: if_splits)

lemma assert_that_Ok:
  "assert_that b w = (Ok r, w1) \<Longrightarrow> w1 = w"
  by (auto simp: assert_that_def ret_def undef_def split: if_splits)

lemma Emplace_trace:
  assumes obj: "objects w this = Some v"
    and not_end: "pos \<noteq> Vector_end v"
    and full: "\<not> size_f v < capacity_f (data_f v)"
    and run: "Emplace T this pos x w = (Ok r, w')"
  shows "trace w' = trace w @
           [Allocated (next_block w) (if size_f v = 0 then 1 else size_f v * 2),
            Constructed (next_block w, snd pos - snd (buffer_f (data_f v)))] @
           relocation_trace T (buffer_f (data_f v)) (snd pos - snd (buffer_f (data_f v)))
             (next_block w, 0) @
           relocation_trace T
             (ptr_add (buffer_f (data_f v)) (snd pos - snd (buffer_f (data_f v))))
             (size_f v - (snd pos - snd (buffer_f (data_f v))))
             (next_block w, snd pos - snd (buffer_f (data_f v)) + 1) @
           release_trace (buffer_f (data_f v))"
proof -
  define nc where "nc = (if size_f v = 0 then 1 else size_f v * 2)"
  define index where "index = snd pos - snd (buffer_f (data_f v))"
  let ?growth = "\<lambda>index.
      seq (RawMemory_ctor T nc) (\<lambda>new_data.
      seq (try_catch_rethrow
             (seq (construct_at T (RawMemory_plus new_data index) x) (\<lambda>_.
              seq (try_catch_rethrow
                     (MoveElements T (GetAddress (data_f v)) index (GetAddress new_data))
                     (destroy_at (RawMemory_plus new_data index))) (\<lambda>_.
              seq (assert_that (index \<le> size_f v)) (\<lambda>_.
              try_catch_rethrow
                (MoveElements T (RawMemory_plus (data_f v) index) (size_f v - index)
                   (RawMemory_plus new_data (index + 1)))
                (destroy_n (GetAddress (data_f v)) (index + 1))))))
             (RawMemory_dtor new_data)) (\<lambda>_.
      case RawMemory_Swap (data_f v) new_data of
        (d, new_data') \<Rightarrow>
          seq (put_object this (v\<lparr>data_f := d\<rparr>)) (\<lambda>_. RawMemory_dtor new_data')))"
  let ?tail = "\<lambda>index.
      seq (update_object this (\<lambda>u. u\<lparr>size_f := Suc (size_f u)\<rparr>)) (\<lambda>_.
      with_object this (\<lambda>u. ret (ptr_add (Vector_begin u) index)))"
  have start: "Emplace T this pos x w =
      seq (ptr_diff pos (Vector_begin v))
        (\<lambda>index. seq (?growth index) (\<lambda>_. ?tail index)) w"
    using obj not_end full
    by (simp add: Emplace_def with_object_def seq_def ret_def Vector_Capacity_def
          RawMemory_Capacity_def nc_def)
  from run [unfolded start] obtain i w0 where
    diff: "ptr_diff pos (Vector_begin v) w = (Ok i, w0)" and
    after_diff: "seq (?growth i) (\<lambda>_. ?tail i) w0 = (Ok r, w')"
    by (rule seq_OkE)
  have i: "i = index" and w0: "w0 = w"
    using ptr_diff_Ok(1,2) [OF diff] by (simp_all add: index_def Vector_begin_def GetAddress_def)
  from after_diff obtain b w3 where
    growth: "?growth index w = (Ok b, w3)" and
    tail: "?tail index w3 = (Ok r, w')"
    unfolding i w0 by (rule seq_OkE)
  from growth obtain new_data w1 where
    alloc: "RawMemory_ctor T nc w = (Ok new_data, w1)" and
    after_alloc: "seq (try_catch_rethrow
             (seq (construct_at T (RawMemory_plus new_data index) x) (\<lambda>_.
              seq (try_catch_rethrow
                     (MoveElements T (GetAddress (data_f v)) index (GetAddress new_data))
                     (destroy_at (RawMemory_plus new_data index))) (\<lambda>_.
              seq (assert_that (index \<le> size_f v)) (\<lambda>_.
              try_catch_rethrow
                (MoveElements T (RawMemory_plus (data_f v) index) (size_f v - index)
                   (RawMemory_plus new_data (index + 1)))
                (destroy_n (GetAddress (data_f v)) (index + 1))))))
             (RawMemory_dtor new_data)) (\<lambda>_.
      case RawMemory_Swap (data_f v) new_data of
        (d, new_data') \<Rightarrow>
          seq (put_object this (v\<lparr>data_f := d\<rparr>)) (\<lambda>_. RawMemory_dtor new_data')) w1
      = (Ok b, w3)"
    by (rule seq_OkE)
  from after_alloc obtain a w2 where
    body: "try_catch_rethrow
             (seq (construct_at T (RawMemory_plus new_data index) x) (\<lambda>_.
              seq (try_catch_rethrow
                     (MoveElements T (GetAddress (data_f v)) index (GetAddress new_data))
                     (destroy_at (RawMemory_plus new_data index))) (\<lambda>_.
              seq (assert_that (index \<le> size_f v)) (\<lambda>_.
              try_catch_rethrow
                (MoveElements T (RawMemory_plus (data_f v) index) (size_f v - index)
                   (RawMemory_plus new_data (index + 1)))
                (destroy_n (GetAddress (data_f v)) (index + 1))))))
             (RawMemory_dtor new_data) w1 = (Ok a, w2)" and
    adopt: "(case RawMemory_Swap (data_f v) new_data of
              (d, new_data') \<Rightarrow>
                seq (put_object this (v\<lparr>data_f := d\<rparr>)) (\<lambda>_. RawMemory_dtor new_data')) w2
            = (Ok b, w3)"
    by (rule seq_OkE)
  from try_catch_rethrow_Ok [OF body] obtain c w1a where
    cons: "construct_at T (RawMemory_plus new_data index) x w1 = (Ok c, w1a)" and
    after_cons: "seq (try_catch_rethrow
                     (MoveElements T (GetAddress (data_f v)) index (GetAddress new_data))
                     (destroy_at (RawMemory_plus new_data index))) (\<lambda>_.
              seq (assert_that (index \<le> size_f v)) (\<lambda>_.
              try_catch_rethrow
                (MoveElements T (RawMemory_plus (data_f v) index) (size_f v - index)
                   (RawMemory_plus new_data (index + 1)))
                (destroy_n (GetAddress (data_f v)) (index + 1)))) w1a = (Ok a, w2)"
    by (rule seq_OkE)
  from after_cons obtain p w1b where
    prefix: "try_catch_rethrow
               (MoveElements T (GetAddress (data_f v)) index (GetAddress new_data))
               (destroy_at (RawMemory_plus new_data index)) w1a = (Ok p, w1b)" and
    after_prefix: "seq (assert_that (index \<le> size_f v)) (\<lambda>_.
              try_catch_rethrow
                (MoveElements T (RawMemory_plus (data_f v) index) (size_f v - index)
                   (RawMemory_plus new_data (index + 1)))
                (destroy_n (GetAddress (data_f v)) (index + 1))) w1b = (Ok a, w2)"
    by (rule seq_OkE)
  from after_prefix obtain q w1c where
    asserted: "assert_that (index \<le> size_f v) w1b = (Ok q, w1c)" and
    suffix: "try_catch_rethrow
                (MoveElements T (RawMemory_plus (data_f v) index) (size_f v - index)
                   (RawMemory_plus new_data (index + 1)))
                (destroy_n (GetAddress (data_f v)) (index + 1)) w1c = (Ok a, w2)"
    by (rule seq_OkE)
  have w1c: "w1c = w1b"
    using assert_that_Ok [OF asserted] .
  have n0: "nc \<noteq> 0"
    by (simp add: nc_def)
  have nd: "buffer_f new_data = (next_block w, 0)"
    using RawMemory_ctor_Ok(1) [OF alloc n0] by simp
  have t1: "trace w1 = trace w @ [Allocated (next_block w) nc]"
    using RawMemory_ctor_Ok(2) [OF alloc n0] .
  have t1a: "trace w1a = trace w1 @ [Constructed (next_block w, index)]"
    using construct_at_trace [OF cons] by (simp add: RawMemory_plus_def nd)
  have t1b: "trace w1b = trace w1a @
      relocation_trace T (buffer_f (data_f v)) index (next_block w, 0)"
    using MoveElements_trace [OF try_catch_rethrow_Ok [OF prefix]]
    by (simp add: nd GetAddress_def)
  have t2: "trace w2 = trace w1b @
      relocation_trace T (ptr_add (buffer_f (data_f v)) index) (size_f v - index)
        (next_block w, index + 1)"
    using MoveElements_trace [OF try_catch_rethrow_Ok [OF suffix]]
    by (simp add: nd RawMemory_plus_def w1c)
  have t3: "trace w3 = trace w2 @ release_trace (buffer_f (data_f v))"
    using adopt_trace [OF adopt] .
  have t4: "trace w' = trace w3"
    using size_update_trace [OF tail] .
  show ?thesis
    using t1 t1a t1b t2 t3 t4 by (simp add: nc_def index_def)
qed

subsection \<open>The callers of the relocation, when nothing throws\<close>

lemma MoveElements_nothing: "MoveElements T from_p 0 to_p w = (Ok (), w)"
  by (simp add: MoveElements_def uninitialized_move_n_def uninitialized_copy_n_def
        seq_def ret_def)

lemma Reserve_relocates:
  assumes obj: "objects w this = Some v"
    and inv: "Vector_invariant w v"
    and fresh: "fresh_block w"
    and grow: "capacity_f (data_f v) < new_capacity"
    and nofail: "\<forall>t\<ge>ticks w. \<not> throws_at T t"
  shows "\<exists>w' v'. Reserve T this new_capacity w = (Ok (), w') \<and>
           objects w' this = Some v' \<and>
           buffer_f (data_f v') = (next_block w, 0) \<and>
           capacity_f (data_f v') = new_capacity \<and> size_f v' = size_f v \<and>
           Vector_invariant w' v' \<and> elements w' v' = elements w v \<and>
           trace w' = trace w @ [Allocated (next_block w) new_capacity] @
             relocation_trace T (buffer_f (data_f v)) (size_f v) (next_block w, 0) @
             release_trace (buffer_f (data_f v))"
proof -
  define nb where "nb = next_block w"
  define new_data where "new_data = \<lparr>buffer_f = (nb, 0), capacity_f = new_capacity\<rparr>"
  define n where "n = size_f v"
  have n0: "new_capacity \<noteq> 0"
    using grow by simp
  have nb0: "nb \<noteq> 0" and hnb: "heap w nb = None"
    using fresh by (simp_all add: fresh_block_def nb_def)
  have t0: "\<not> throws_at T (ticks w)" and later: "\<forall>t\<ge>Suc (ticks w). \<not> throws_at T t"
    using nofail by simp_all
  have n_le: "n \<le> capacity_f (data_f v)"
    using inv by (simp add: Vector_invariant_def n_def)
  from RawMemory_ctor_ok [OF t0 n0] obtain w1 where
    alloc: "RawMemory_ctor T new_capacity w = (Ok new_data, w1)" and
    h1: "heap w1 = (heap w)(nb \<mapsto> replicate new_capacity Raw)" and
    f1: "objects w1 = objects w" "ticks w1 = Suc (ticks w)"
    unfolding nb_def new_data_def by auto
  have bn: "buffer_f new_data = (nb, 0)"
    by (simp add: new_data_def)
  let ?ds = "replicate new_capacity Raw :: 'a slot list"
  have moved: "\<exists>w2 ds2. MoveElements T (buffer_f (data_f v)) n (nb, 0) w1 = (Ok (), w2) \<and>
      heap w2 nb = Some ds2 \<and> length ds2 = new_capacity \<and>
      take n ds2 = elements w v \<and> (\<forall>m. n \<le> m \<and> m < new_capacity \<longrightarrow> ds2 ! m = Raw) \<and>
      (capacity_f (data_f v) \<noteq> 0 \<longrightarrow> heap w2 (fst (buffer_f (data_f v))) \<noteq> None) \<and>
      objects w2 = objects w1"
  proof (cases "capacity_f (data_f v) = 0")
    case True
    then have z: "n = 0"
      using n_le by simp
    have "MoveElements T (buffer_f (data_f v)) n (nb, 0) w1 = (Ok (), w1)"
      unfolding z by (rule MoveElements_nothing)
    moreover have "heap w1 nb = Some ?ds"
      by (simp add: h1)
    moreover have "take n ?ds = elements w v"
      using z by (simp add: elements_def n_def split: option.splits)
    ultimately show ?thesis
      using True by auto
  next
    case False
    obtain vb where buf: "buffer_f (data_f v) = (vb, 0)" and vb: "vb \<noteq> 0"
      using inv False by (cases "buffer_f (data_f v)") (simp add: Vector_invariant_def)
    obtain ss where hv: "heap w vb = Some ss" and len: "length ss = capacity_f (data_f v)"
      and all_live: "list_all is_live (take n ss)"
      using inv False buf by (auto simp: Vector_invariant_def n_def split: option.splits)
    have ne: "vb \<noteq> nb"
      using hv hnb by auto
    have hs1: "heap w1 vb = Some ss" and hd1: "heap w1 nb = Some ?ds"
      using ne hv by (simp_all add: h1)
    have n1: "\<forall>t\<ge>ticks w1. \<not> throws_at T t"
      using later f1 by simp
    have ls: "n \<le> length ss" and ld: "n \<le> length ?ds"
      using n_le len grow by simp_all
    have pre: "\<forall>m<n. is_live (ss ! m) \<and> ?ds ! m = Raw"
      using all_live ls grow n_le by (simp add: list_all_length)
    from MoveElements_ok [OF ne n1 hs1 hd1 ls ld pre] obtain w2 ss2 ds2 where all:
      "MoveElements T (vb, 0) n (nb, 0) w1 = (Ok (), w2) \<and>
        heap w2 vb = Some ss2 \<and> heap w2 nb = Some ds2 \<and>
        length ss2 = length ss \<and> length ds2 = length ?ds \<and>
        (\<forall>m<n. ds2 ! m = ss ! m \<and> ss2 ! m = Raw) \<and>
        (\<forall>m. n \<le> m \<and> m < length ?ds \<longrightarrow> ds2 ! m = ?ds ! m) \<and>
        (\<forall>b. b \<noteq> vb \<longrightarrow> b \<noteq> nb \<longrightarrow> heap w2 b = heap w1 b) \<and>
        objects w2 = objects w1 \<and> next_block w2 = next_block w1 \<and>
        (\<forall>t\<ge>ticks w2. \<not> throws_at T t)"
      by (elim exE) (rule that)
    have run: "MoveElements T (buffer_f (data_f v)) n (nb, 0) w1 = (Ok (), w2)"
      and h2: "heap w2 vb = Some ss2" "heap w2 nb = Some ds2"
      and l2: "length ds2 = new_capacity"
      and low: "\<forall>m<n. ds2 ! m = ss ! m"
      and high: "\<forall>m. n \<le> m \<and> m < new_capacity \<longrightarrow> ds2 ! m = Raw"
      and o2: "objects w2 = objects w1"
      using all buf by simp_all
    have "take n ds2 = take n ss"
      using low ls l2 grow n_le by (intro nth_equalityI) simp_all
    then have "take n ds2 = elements w v"
      using buf hv by (simp add: elements_def n_def)
    with run h2 l2 high o2 buf show ?thesis
      by auto
  qed
  then obtain w2 ds2 where
    move: "MoveElements T (buffer_f (data_f v)) n (nb, 0) w1 = (Ok (), w2)" and
    h2: "heap w2 nb = Some ds2" and l2: "length ds2 = new_capacity" and
    el2: "take n ds2 = elements w v" and
    high: "\<forall>m. n \<le> m \<and> m < new_capacity \<longrightarrow> ds2 ! m = Raw" and
    old2: "capacity_f (data_f v) \<noteq> 0 \<longrightarrow> heap w2 (fst (buffer_f (data_f v))) \<noteq> None" and
    o2: "objects w2 = objects w1"
    by blast
  define v' where "v' = v\<lparr>data_f := new_data\<rparr>"
  define w3 where "w3 = w2\<lparr>objects := (objects w2)(this \<mapsto> v')\<rparr>"
  have swap: "RawMemory_Swap (data_f v) new_data =
      (new_data, \<lparr>buffer_f = buffer_f (data_f v), capacity_f = capacity_f (data_f v)\<rparr>)"
    by (simp add: RawMemory_Swap_def new_data_def)
  have release: "\<exists>w4. Deallocate (buffer_f (data_f v)) w3 = (Ok (), w4) \<and>
      objects w4 = objects w3 \<and> heap w4 nb = heap w3 nb"
  proof (cases "capacity_f (data_f v) = 0")
    case True
    then have "buffer_f (data_f v) = (0, 0)"
      using inv by (simp add: Vector_invariant_def nullptr_def)
    then show ?thesis
      by (simp add: Deallocate_nullptr)
  next
    case False
    obtain vb where buf: "buffer_f (data_f v) = (vb, 0)" and vb: "vb \<noteq> 0"
      using inv False by (cases "buffer_f (data_f v)") (simp add: Vector_invariant_def)
    have "heap w vb \<noteq> None"
      using inv False buf by (auto simp: Vector_invariant_def split: option.splits)
    then have ne: "vb \<noteq> nb"
      using hnb by auto
    obtain ss3 where h3: "heap w3 vb = Some ss3"
      using old2 False buf by (auto simp: w3_def)
    show ?thesis
      using Deallocate_ok [OF vb h3] ne by (simp add: buf)
  qed
  then obtain w4 where
    dealloc: "Deallocate (buffer_f (data_f v)) w3 = (Ok (), w4)" and
    o4: "objects w4 = objects w3" and h4: "heap w4 nb = heap w3 nb"
    by blast
  have run: "Reserve T this new_capacity w = (Ok (), w4)"
    using obj grow alloc move dealloc
    by (simp add: Reserve_def with_object_def RawMemory_Capacity_def seq_def
          try_catch_rethrow_def GetAddress_def bn swap put_object_def RawMemory_dtor_def
          w3_def v'_def n_def)
  have this': "objects w4 this = Some v'"
    by (simp add: o4 w3_def)
  have fields: "buffer_f (data_f v') = (nb, 0)" "capacity_f (data_f v') = new_capacity"
      "size_f v' = n"
    by (simp_all add: v'_def new_data_def n_def)
  have hnew: "heap w4 nb = Some ds2"
    using h2 by (simp add: h4 w3_def)
  have lives: "list_all is_live (take n ds2)"
  proof -
    have "list_all is_live (elements w v)"
      using inv by (auto simp: Vector_invariant_def elements_def nullptr_def n_def
          split: option.splits if_splits)
    then show ?thesis
      by (simp add: el2)
  qed
  have raws: "list_all is_raw (drop n ds2)"
    using high l2 by (simp add: list_all_length)
  have inv': "Vector_invariant w4 v'"
    using fields hnew l2 nb0 n0 lives raws n_le grow by (simp add: Vector_invariant_def)
  have el': "elements w4 v' = elements w v"
    using fields hnew el2 by (simp add: elements_def)
  have tr: "trace w4 = trace w @ [Allocated (next_block w) new_capacity] @
      relocation_trace T (buffer_f (data_f v)) (size_f v) (next_block w, 0) @
      release_trace (buffer_f (data_f v))"
    using obj grow run by (rule Reserve_trace)
  from run this' fields inv' el' tr show ?thesis
    unfolding nb_def n_def by blast
qed

lemma MoveElements_returns:
  assumes ne: "sb \<noteq> db"
    and nofail: "\<forall>t\<ge>ticks w. \<not> throws_at T t"
    and hs: "heap w sb = Some ss" and hd: "heap w db = Some ds"
    and ls: "so + n \<le> length ss" and ld: "dof + n \<le> length ds"
    and pre: "\<forall>m<n. is_live (ss ! (so + m)) \<and> ds ! (dof + m) = Raw"
  shows "\<exists>w' ss' ds'. MoveElements T (sb, so) n (db, dof) w = (Ok (), w') \<and>
            heap w' sb = Some ss' \<and> heap w' db = Some ds' \<and>
            length ss' = length ss \<and> length ds' = length ds \<and>
            (\<forall>m<n. ds' ! (dof + m) = ss ! (so + m) \<and> ss' ! (so + m) = Raw) \<and>
            (\<forall>i. \<not> (dof \<le> i \<and> i < dof + n) \<longrightarrow> ds' ! i = ds ! i) \<and>
            (\<forall>i. \<not> (so \<le> i \<and> i < so + n) \<longrightarrow> i < length ss \<longrightarrow> ss' ! i = ss ! i) \<and>
            (\<forall>b. b \<noteq> sb \<longrightarrow> b \<noteq> db \<longrightarrow> heap w' b = heap w b) \<and>
            objects w' = objects w \<and> next_block w' = next_block w \<and>
            ticks w \<le> ticks w'"
proof -
  define run where "run = MoveElements T (sb, so) n (db, dof) w"
  have no_throw: "\<not> (\<exists>w'. run = (Throw element_failure, w') \<and> (\<exists>t\<ge>ticks w. throws_at T t))"
    using nofail by blast
  have "(\<exists>w' ss' ds'. run = (Ok (), w') \<and>
            heap w' sb = Some ss' \<and> heap w' db = Some ds' \<and>
            length ss' = length ss \<and> length ds' = length ds \<and>
            (\<forall>m<n. ds' ! (dof + m) = ss ! (so + m) \<and> ss' ! (so + m) = Raw) \<and>
            (\<forall>i. \<not> (dof \<le> i \<and> i < dof + n) \<longrightarrow> ds' ! i = ds ! i) \<and>
            (\<forall>i. \<not> (so \<le> i \<and> i < so + n) \<longrightarrow> i < length ss \<longrightarrow> ss' ! i = ss ! i) \<and>
            (\<forall>b. b \<noteq> sb \<longrightarrow> b \<noteq> db \<longrightarrow> heap w' b = heap w b) \<and>
            objects w' = objects w \<and> next_block w' = next_block w \<and>
            ticks w \<le> ticks w' \<and>
            trace w' = trace w @ relocation_trace T (sb, so) n (db, dof)) \<or>
         (\<exists>w'. run = (Throw element_failure, w') \<and> (\<exists>t\<ge>ticks w. throws_at T t))"
    unfolding run_def using ne hs hd ls ld pre by (rule MoveElements_outcomes)
  with no_throw obtain w' ss' ds' where all: "run = (Ok (), w') \<and>
            heap w' sb = Some ss' \<and> heap w' db = Some ds' \<and>
            length ss' = length ss \<and> length ds' = length ds \<and>
            (\<forall>m<n. ds' ! (dof + m) = ss ! (so + m) \<and> ss' ! (so + m) = Raw) \<and>
            (\<forall>i. \<not> (dof \<le> i \<and> i < dof + n) \<longrightarrow> ds' ! i = ds ! i) \<and>
            (\<forall>i. \<not> (so \<le> i \<and> i < so + n) \<longrightarrow> i < length ss \<longrightarrow> ss' ! i = ss ! i) \<and>
            (\<forall>b. b \<noteq> sb \<longrightarrow> b \<noteq> db \<longrightarrow> heap w' b = heap w b) \<and>
            objects w' = objects w \<and> next_block w' = next_block w \<and>
            ticks w \<le> ticks w' \<and>
            trace w' = trace w @ relocation_trace T (sb, so) n (db, dof)"
    by (elim disjE exE) (rule that, assumption, blast)
  then show ?thesis
    unfolding run_def by (intro exI [of _ w'] exI [of _ ss'] exI [of _ ds']) simp
qed

lemma Emplace_growth_full:
  assumes obj: "objects w this = Some v"
    and cap: "capacity_f (data_f v) = c" and sz: "size_f v = c"
    and idx: "index < c"
    and buf: "buffer_f (data_f v) = (vb, 0)" and vb: "vb \<noteq> 0"
    and hv: "heap w vb = Some ss" and len: "length ss = c"
    and live: "\<forall>m<c. is_live (ss ! m)"
    and fresh: "fresh_block w"
    and nofail: "\<forall>t\<ge>ticks w. \<not> throws_at T t"
  shows "\<exists>w' v' ds. Emplace T this (vb, index) x w = (Ok (next_block w, index), w') \<and>
           objects w' this = Some v' \<and>
           buffer_f (data_f v') = (next_block w, 0) \<and>
           capacity_f (data_f v') = 2 * c \<and> size_f v' = c + 1 \<and>
           heap w' (next_block w) = Some ds \<and> length ds = 2 * c \<and>
           (\<forall>m<index. ds ! m = ss ! m) \<and> ds ! index = Live x \<and>
           (\<forall>m. index \<le> m \<and> m < c \<longrightarrow> ds ! (m + 1) = ss ! m) \<and>
           (\<forall>m. c < m \<and> m < 2 * c \<longrightarrow> ds ! m = Raw)"
proof -
  define nb where "nb = next_block w"
  define new_data where "new_data = \<lparr>buffer_f = (nb, 0), capacity_f = c * 2\<rparr>"
  have pos: "0 < c"
    using idx by simp
  have nb0: "nb \<noteq> 0" and hnb: "heap w nb = None"
    using fresh by (simp_all add: fresh_block_def nb_def)
  have ne: "vb \<noteq> nb"
    using hv hnb by auto
  have t0: "\<not> throws_at T (ticks w)" and later: "\<forall>t\<ge>Suc (Suc (ticks w)). \<not> throws_at T t"
    and t1: "\<not> throws_at T (Suc (ticks w))"
    using nofail by simp_all
  from RawMemory_ctor_ok [OF t0, of "c * 2"] pos obtain w1 where
    alloc: "RawMemory_ctor T (c * 2) w = (Ok new_data, w1)" and
    h1: "heap w1 = (heap w)(nb \<mapsto> replicate (c * 2) Raw)" and
    f1: "objects w1 = objects w" "ticks w1 = Suc (ticks w)"
    unfolding nb_def new_data_def by auto
  have hb1: "heap w1 nb = Some (replicate (c * 2) Raw)"
    by (simp add: h1)
  have t1': "\<not> throws_at T (ticks w1)"
    using t1 f1 by simp
  have i_lt: "index < length (replicate (c * 2) Raw :: 'a slot list)"
    using idx by simp
  have i_raw: "(replicate (c * 2) Raw :: 'a slot list) ! index = Raw"
    using idx by simp
  define ds0 where "ds0 = (replicate (c * 2) Raw :: 'a slot list)[index := Live x]"
  from construct_at_ok [OF hb1 i_lt i_raw t1', of x] obtain w2 where
    cons: "construct_at T (nb, index) x w1 = (Ok (), w2)" and
    h2: "heap w2 = (heap w1)(nb \<mapsto> ds0)" and
    f2: "objects w2 = objects w1" "ticks w2 = Suc (ticks w1)"
    unfolding ds0_def by blast
  have hs2: "heap w2 vb = Some ss" and hd2: "heap w2 nb = Some ds0"
    using ne hv by (simp_all add: h2 h1)
  have n2: "\<forall>t\<ge>ticks w2. \<not> throws_at T t"
    using later f1 f2 by simp
  have l0: "length ds0 = 2 * c"
    by (simp add: ds0_def)
  have ls: "0 + index \<le> length ss" and ld: "0 + index \<le> length ds0"
    using len idx by (simp_all add: ds0_def)
  have pre: "\<forall>m<index. is_live (ss ! (0 + m)) \<and> ds0 ! (0 + m) = Raw"
    using live idx by (simp add: ds0_def)
  from MoveElements_returns [OF ne n2 hs2 hd2 ls ld pre] obtain w3 ss3 ds3 where all3:
    "MoveElements T (vb, 0) index (nb, 0) w2 = (Ok (), w3) \<and>
      heap w3 vb = Some ss3 \<and> heap w3 nb = Some ds3 \<and>
      length ss3 = length ss \<and> length ds3 = length ds0 \<and>
      (\<forall>m<index. ds3 ! (0 + m) = ss ! (0 + m) \<and> ss3 ! (0 + m) = Raw) \<and>
      (\<forall>i. \<not> (0 \<le> i \<and> i < 0 + index) \<longrightarrow> ds3 ! i = ds0 ! i) \<and>
      (\<forall>i. \<not> (0 \<le> i \<and> i < 0 + index) \<longrightarrow> i < length ss \<longrightarrow> ss3 ! i = ss ! i) \<and>
      (\<forall>b. b \<noteq> vb \<longrightarrow> b \<noteq> nb \<longrightarrow> heap w3 b = heap w2 b) \<and>
      objects w3 = objects w2 \<and> next_block w3 = next_block w2 \<and>
      ticks w2 \<le> ticks w3"
    by (elim exE) (rule that)
  have move1: "MoveElements T (vb, 0) index (nb, 0) w2 = (Ok (), w3)"
    and h3: "heap w3 vb = Some ss3" "heap w3 nb = Some ds3"
    and len3: "length ss3 = c" "length ds3 = 2 * c"
    and in3: "\<forall>m<index. ds3 ! m = ss ! m"
    and out3: "\<forall>i. index \<le> i \<longrightarrow> ds3 ! i = ds0 ! i"
    and src3: "\<forall>i. index \<le> i \<longrightarrow> i < c \<longrightarrow> ss3 ! i = ss ! i"
    and f3: "objects w3 = objects w2"
    and tk3: "ticks w2 \<le> ticks w3"
    using all3 len l0 by simp_all
  have n3: "\<forall>t\<ge>ticks w3. \<not> throws_at T t"
    using n2 tk3 by simp
  have ls3: "index + (c - index) \<le> length ss3"
    and ld3: "(index + 1) + (c - index) \<le> length ds3"
    using len3 idx by simp_all
  have pre3: "\<forall>m<c - index. is_live (ss3 ! (index + m)) \<and> ds3 ! ((index + 1) + m) = Raw"
    using live src3 out3 idx by (simp add: ds0_def)
  from MoveElements_returns [OF ne n3 h3 ls3 ld3 pre3] obtain w4 ss4 ds4 where all4:
    "MoveElements T (vb, index) (c - index) (nb, index + 1) w3 = (Ok (), w4) \<and>
      heap w4 vb = Some ss4 \<and> heap w4 nb = Some ds4 \<and>
      length ss4 = length ss3 \<and> length ds4 = length ds3 \<and>
      (\<forall>m<c - index. ds4 ! ((index + 1) + m) = ss3 ! (index + m) \<and> ss4 ! (index + m) = Raw) \<and>
      (\<forall>i. \<not> (index + 1 \<le> i \<and> i < (index + 1) + (c - index)) \<longrightarrow> ds4 ! i = ds3 ! i) \<and>
      (\<forall>i. \<not> (index \<le> i \<and> i < index + (c - index)) \<longrightarrow> i < length ss3 \<longrightarrow> ss4 ! i = ss3 ! i) \<and>
      (\<forall>b. b \<noteq> vb \<longrightarrow> b \<noteq> nb \<longrightarrow> heap w4 b = heap w3 b) \<and>
      objects w4 = objects w3 \<and> next_block w4 = next_block w3 \<and>
      ticks w3 \<le> ticks w4"
    by (elim exE) (rule that)
  have move2: "MoveElements T (vb, index) (c - index) (nb, index + 1) w3 = (Ok (), w4)"
    and h4: "heap w4 vb = Some ss4" "heap w4 nb = Some ds4"
    and len4: "length ds4 = 2 * c"
    and in4: "\<forall>m<c - index. ds4 ! ((index + 1) + m) = ss3 ! (index + m)"
    and out4: "\<forall>i. \<not> (index + 1 \<le> i \<and> i < (index + 1) + (c - index)) \<longrightarrow> ds4 ! i = ds3 ! i"
    and f4: "objects w4 = objects w3"
    using all4 len3 by simp_all
  have low: "\<forall>m<index. ds4 ! m = ss ! m"
    using out4 in3 by simp
  have mid: "ds4 ! index = Live x"
  proof -
    have "ds4 ! index = ds3 ! index"
      using out4 by simp
    also have "\<dots> = ds0 ! index"
      using out3 by simp
    finally show ?thesis
      using idx by (simp add: ds0_def)
  qed
  have shifted: "\<forall>m. index \<le> m \<and> m < c \<longrightarrow> ds4 ! (m + 1) = ss ! m"
  proof (intro allI impI)
    fix m assume m: "index \<le> m \<and> m < c"
    then have "m - index < c - index"
      by auto
    with in4 have "ds4 ! ((index + 1) + (m - index)) = ss3 ! (index + (m - index))"
      by blast
    then have "ds4 ! (m + 1) = ss3 ! m"
      using m by simp
    then show "ds4 ! (m + 1) = ss ! m"
      using src3 m by simp
  qed
  have above: "\<forall>m. c < m \<and> m < 2 * c \<longrightarrow> ds4 ! m = Raw"
  proof (intro allI impI)
    fix m assume m: "c < m \<and> m < 2 * c"
    then have "\<not> (index + 1 \<le> m \<and> m < (index + 1) + (c - index))"
      using idx by simp
    with out4 have "ds4 ! m = ds3 ! m"
      by blast
    also have "\<dots> = ds0 ! m"
      using out3 m idx by simp
    finally show "ds4 ! m = Raw"
      using m idx by (simp add: ds0_def)
  qed
  have inner: "try_catch_rethrow
      (seq (construct_at T (nb, index) x) (\<lambda>_.
       seq (try_catch_rethrow (MoveElements T (vb, 0) index (nb, 0))
              (destroy_at (nb, index))) (\<lambda>_.
       seq (assert_that (index \<le> c)) (\<lambda>_.
       try_catch_rethrow
         (MoveElements T (vb, index) (c - index) (nb, index + 1))
         (destroy_n (vb, 0) (index + 1))))))
      (RawMemory_dtor new_data) w1 = (Ok (), w4)"
    using cons move1 move2 idx
    by (simp add: try_catch_rethrow_def seq_def assert_that_def ret_def)
  have o4: "objects w4 this = Some v"
    using obj f1 f2 f3 f4 by simp
  define w5 where "w5 = w4\<lparr>objects := (objects w4)(this \<mapsto> v\<lparr>data_f := new_data\<rparr>)\<rparr>"
  have h5: "heap w5 vb = Some ss4"
    using h4 by (simp add: w5_def)
  define w6 where "w6 = emit (Deallocated vb) (w5\<lparr>heap := (heap w5)(vb := None)\<rparr>)"
  have dealloc: "Deallocate (vb, 0) w5 = (Ok (), w6)"
    unfolding w6_def by (rule Deallocate_ok [OF vb h5])
  have o6: "objects w6 this = Some (v\<lparr>data_f := new_data\<rparr>)"
    by (simp add: w6_def w5_def)
  have h6: "heap w6 nb = Some ds4"
    using ne h4 by (simp add: w6_def w5_def)
  have bn: "buffer_f new_data = (nb, 0)"
    by (simp add: new_data_def)
  have swap: "RawMemory_Swap (data_f v) new_data =
      (new_data, \<lparr>buffer_f = (vb, 0), capacity_f = c\<rparr>)"
    using buf cap by (simp add: RawMemory_Swap_def new_data_def)
  define v' where "v' = v\<lparr>data_f := new_data, size_f := Suc c\<rparr>"
  define w7 where "w7 = w6\<lparr>objects := (objects w6)(this \<mapsto> v')\<rparr>"
  have growth: "(seq (RawMemory_ctor T (if size_f v = 0 then 1 else size_f v * 2)) (\<lambda>new_data.
        seq (try_catch_rethrow
               (seq (construct_at T (RawMemory_plus new_data index) x) (\<lambda>_.
                seq (try_catch_rethrow
                       (MoveElements T (GetAddress (data_f v)) index (GetAddress new_data))
                       (destroy_at (RawMemory_plus new_data index))) (\<lambda>_.
                seq (assert_that (index \<le> size_f v)) (\<lambda>_.
                try_catch_rethrow
                  (MoveElements T (RawMemory_plus (data_f v) index) (size_f v - index)
                     (RawMemory_plus new_data (index + 1)))
                  (destroy_n (GetAddress (data_f v)) (index + 1))))))
               (RawMemory_dtor new_data)) (\<lambda>_.
        case RawMemory_Swap (data_f v) new_data of
          (d, new_data') \<Rightarrow>
            seq (put_object this (v\<lparr>data_f := d\<rparr>)) (\<lambda>_. RawMemory_dtor new_data')))) w
      = (Ok (), w6)"
    using pos sz alloc inner dealloc buf
    by (simp add: seq_def swap bn RawMemory_plus_def GetAddress_def
          put_object_def RawMemory_dtor_def w5_def)
  have not_end: "(vb, index) \<noteq> Vector_end v"
    using buf sz idx by (simp add: Vector_end_def RawMemory_plus_def)
  have diff: "ptr_diff (vb, index) (Vector_begin v) w = (Ok index, w)"
    using buf by (simp add: ptr_diff_def Vector_begin_def GetAddress_def ret_def)
  have run: "Emplace T this (vb, index) x w = (Ok (nb, index), w7)"
    using obj cap sz not_end diff growth o6
    by (simp add: Emplace_def with_object_def Vector_Capacity_def RawMemory_Capacity_def
          seq_def update_object_def put_object_def ret_def Vector_begin_def GetAddress_def
          w7_def v'_def bn)
  have o7: "objects w7 this = Some v'"
    by (simp add: w7_def)
  have h7: "heap w7 nb = Some ds4"
    using h6 by (simp add: w7_def)
  have fields: "buffer_f (data_f v') = (nb, 0)" "capacity_f (data_f v') = 2 * c"
      "size_f v' = c + 1"
    by (simp_all add: v'_def new_data_def)
  from run o7 fields h7 len4 low mid shifted above show ?thesis
    unfolding nb_def by blast
qed

lemma EmplaceBack_appends:
  assumes obj: "objects w this = Some v"
    and inv: "Vector_invariant w v"
    and fresh: "fresh_block w"
    and full: "size_f v = capacity_f (data_f v)"
    and nofail: "\<forall>t\<ge>ticks w. \<not> throws_at T t"
  shows "\<exists>w' v'. EmplaceBack T this x w = (Ok (next_block w, size_f v), w') \<and>
           objects w' this = Some v' \<and>
           buffer_f (data_f v') = (next_block w, 0) \<and>
           capacity_f (data_f v') = max 1 (2 * size_f v) \<and>
           size_f v' = size_f v + 1 \<and>
           Vector_invariant w' v' \<and>
           elements w' v' = elements w v @ [Live x] \<and>
           trace w' = trace w @
             [Allocated (next_block w) (max 1 (2 * size_f v)),
              Constructed (next_block w, size_f v)] @
             relocation_trace T (buffer_f (data_f v)) (size_f v) (next_block w, 0) @
             release_trace (buffer_f (data_f v))"
proof -
  have nb0: "next_block w \<noteq> 0"
    using fresh by (simp add: fresh_block_def)
  have not_less: "\<not> size_f v < capacity_f (data_f v)"
    using full by simp
  have mx: "(if size_f v = 0 then 1 else size_f v * 2) = max 1 (2 * size_f v)"
    by simp
  have "\<exists>w' v'. EmplaceBack T this x w = (Ok (next_block w, size_f v), w') \<and>
           objects w' this = Some v' \<and>
           buffer_f (data_f v') = (next_block w, 0) \<and>
           capacity_f (data_f v') = max 1 (2 * size_f v) \<and>
           size_f v' = size_f v + 1 \<and>
           Vector_invariant w' v' \<and>
           elements w' v' = elements w v @ [Live x]"
  proof (cases "capacity_f (data_f v) = 0")
    case True
    have sz: "size_f v = 0" and buf: "buffer_f (data_f v) = (0, 0)"
      using inv True full by (simp_all add: Vector_invariant_def nullptr_def)
    from EmplaceBack_growth_from_empty [OF obj True sz buf fresh nofail, of x]
    obtain w' v' where
      run: "EmplaceBack T this x w = (Ok (next_block w, 0), w')" and
      o': "objects w' this = Some v'" and
      b': "buffer_f (data_f v') = (next_block w, 0)" and
      c': "capacity_f (data_f v') = 1" and s': "size_f v' = 1" and
      h': "heap w' (next_block w) = Some [Live x]"
      by blast
    have inv': "Vector_invariant w' v'"
      using b' c' s' h' nb0 by (simp add: Vector_invariant_def)
    have old: "elements w v = []"
      using sz by (simp add: elements_def split: option.splits)
    have new: "elements w' v' = [Live x]"
      using b' s' h' by (simp add: elements_def)
    show ?thesis
      using run o' b' c' s' inv' old new sz by simp
  next
    case False
    define c where "c = capacity_f (data_f v)"
    have pos: "0 < c" and cap: "capacity_f (data_f v) = c" and sz: "size_f v = c"
      using False full by (simp_all add: c_def)
    obtain vb where buf: "buffer_f (data_f v) = (vb, 0)" and vb: "vb \<noteq> 0"
      using inv False by (cases "buffer_f (data_f v)") (simp add: Vector_invariant_def)
    obtain ss where hv: "heap w vb = Some ss" and len: "length ss = c"
      and all_live: "list_all is_live (take c ss)"
      using inv False buf cap sz
      by (auto simp: Vector_invariant_def split: option.splits)
    have live: "\<forall>m<c. is_live (ss ! m)"
      using all_live len by (simp add: list_all_length)
    from EmplaceBack_growth_full [OF obj cap sz pos buf vb hv len live fresh nofail, of x]
    obtain w' v' ds where all:
      "EmplaceBack T this x w = (Ok (next_block w, c), w') \<and>
       objects w' this = Some v' \<and>
       buffer_f (data_f v') = (next_block w, 0) \<and>
       capacity_f (data_f v') = 2 * c \<and> size_f v' = c + 1 \<and>
       heap w' (next_block w) = Some ds \<and> length ds = 2 * c \<and>
       (\<forall>m<c. ds ! m = ss ! m) \<and> ds ! c = Live x \<and>
       (\<forall>m. c < m \<and> m < 2 * c \<longrightarrow> ds ! m = Raw)"
      by (elim exE) (rule that)
    have run: "EmplaceBack T this x w = (Ok (next_block w, c), w')"
      and o': "objects w' this = Some v'"
      and b': "buffer_f (data_f v') = (next_block w, 0)"
      and c': "capacity_f (data_f v') = 2 * c" and s': "size_f v' = c + 1"
      and h': "heap w' (next_block w) = Some ds" and l': "length ds = 2 * c"
      and low: "\<forall>m<c. ds ! m = ss ! m" and mid: "ds ! c = Live x"
      and high: "\<forall>m. c < m \<and> m < 2 * c \<longrightarrow> ds ! m = Raw"
      using all by simp_all
    have tk: "take (c + 1) ds = ss @ [Live x]"
    proof (rule nth_equalityI)
      show "length (take (c + 1) ds) = length (ss @ [Live x])"
        using l' len pos by simp
    next
      fix i assume "i < length (take (c + 1) ds)"
      then have i: "i < c + 1" by simp
      show "take (c + 1) ds ! i = (ss @ [Live x]) ! i"
      proof (cases "i < c")
        case True
        then show ?thesis using low len i by (simp add: nth_append)
      next
        case False
        then have "i = c" using i by simp
        then show ?thesis using mid len by (simp add: nth_append)
      qed
    qed
    have lives: "list_all is_live (take (c + 1) ds)"
      unfolding tk using live len by (auto simp: list_all_length nth_append)
    have raws: "list_all is_raw (drop (c + 1) ds)"
      using high l' by (simp add: list_all_length)
    have inv': "Vector_invariant w' v'"
      using b' c' s' h' l' nb0 pos lives raws by (simp add: Vector_invariant_def)
    have old: "elements w v = ss"
      using buf hv sz len by (simp add: elements_def)
    have new: "elements w' v' = ss @ [Live x]"
      using b' h' s' tk by (simp add: elements_def)
    have mx': "max 1 (2 * c) = 2 * c"
      using pos by simp
    show ?thesis
      using run o' b' c' s' inv' old new cap sz mx' by simp
  qed
  then obtain w' v' where
    run: "EmplaceBack T this x w = (Ok (next_block w, size_f v), w')" and
    rest: "objects w' this = Some v'" "buffer_f (data_f v') = (next_block w, 0)"
      "capacity_f (data_f v') = max 1 (2 * size_f v)" "size_f v' = size_f v + 1"
      "Vector_invariant w' v'" "elements w' v' = elements w v @ [Live x]"
    by blast
  have "trace w' = trace w @
        [Allocated (next_block w) (if size_f v = 0 then 1 else size_f v * 2),
         Constructed (next_block w, size_f v)] @
        relocation_trace T (buffer_f (data_f v)) (size_f v) (next_block w, 0) @
        release_trace (buffer_f (data_f v))"
    using obj not_less run by (rule EmplaceBack_trace)
  then have tr: "trace w' = trace w @
        [Allocated (next_block w) (max 1 (2 * size_f v)),
         Constructed (next_block w, size_f v)] @
        relocation_trace T (buffer_f (data_f v)) (size_f v) (next_block w, 0) @
        release_trace (buffer_f (data_f v))"
    unfolding mx .
  from run rest tr show ?thesis
    by blast
qed

lemma Emplace_inserts:
  assumes obj: "objects w this = Some v"
    and inv: "Vector_invariant w v"
    and fresh: "fresh_block w"
    and full: "size_f v = capacity_f (data_f v)"
    and idx: "index < size_f v"
    and nofail: "\<forall>t\<ge>ticks w. \<not> throws_at T t"
  shows "\<exists>w' v'. Emplace T this (ptr_add (Vector_begin v) index) x w =
             (Ok (next_block w, index), w') \<and>
           objects w' this = Some v' \<and>
           buffer_f (data_f v') = (next_block w, 0) \<and>
           capacity_f (data_f v') = 2 * size_f v \<and>
           size_f v' = size_f v + 1 \<and>
           Vector_invariant w' v' \<and>
           elements w' v' =
             take index (elements w v) @ [Live x] @ drop index (elements w v) \<and>
           trace w' = trace w @
             [Allocated (next_block w) (2 * size_f v), Constructed (next_block w, index)] @
             relocation_trace T (buffer_f (data_f v)) index (next_block w, 0) @
             relocation_trace T (ptr_add (buffer_f (data_f v)) index) (size_f v - index)
               (next_block w, index + 1) @
             release_trace (buffer_f (data_f v))"
proof -
  define c where "c = capacity_f (data_f v)"
  have cap: "capacity_f (data_f v) = c" and sz: "size_f v = c" and ic: "index < c"
    using full idx by (simp_all add: c_def)
  have pos: "0 < c"
    using ic by simp
  have c0: "capacity_f (data_f v) \<noteq> 0"
    using pos cap by simp
  obtain vb where buf: "buffer_f (data_f v) = (vb, 0)" and vb: "vb \<noteq> 0"
    using inv c0 by (cases "buffer_f (data_f v)") (simp add: Vector_invariant_def)
  obtain ss where hv: "heap w vb = Some ss" and len: "length ss = c"
    and all_live: "list_all is_live (take c ss)"
    using inv c0 buf cap sz
    by (auto simp: Vector_invariant_def split: option.splits)
  have live: "\<forall>m<c. is_live (ss ! m)"
    using all_live len by (simp add: list_all_length)
  have nb0: "next_block w \<noteq> 0"
    using fresh by (simp add: fresh_block_def)
  have bg: "Vector_begin v = (vb, 0)"
    using buf by (simp add: Vector_begin_def GetAddress_def)
  have at: "ptr_add (Vector_begin v) index = (vb, index)"
    by (simp add: bg)
  from Emplace_growth_full [OF obj cap sz ic buf vb hv len live fresh nofail, of x]
  obtain w' v' ds where all:
    "Emplace T this (vb, index) x w = (Ok (next_block w, index), w') \<and>
     objects w' this = Some v' \<and>
     buffer_f (data_f v') = (next_block w, 0) \<and>
     capacity_f (data_f v') = 2 * c \<and> size_f v' = c + 1 \<and>
     heap w' (next_block w) = Some ds \<and> length ds = 2 * c \<and>
     (\<forall>m<index. ds ! m = ss ! m) \<and> ds ! index = Live x \<and>
     (\<forall>m. index \<le> m \<and> m < c \<longrightarrow> ds ! (m + 1) = ss ! m) \<and>
     (\<forall>m. c < m \<and> m < 2 * c \<longrightarrow> ds ! m = Raw)"
    by (elim exE) (rule that)
  have run: "Emplace T this (vb, index) x w = (Ok (next_block w, index), w')"
    and o': "objects w' this = Some v'"
    and b': "buffer_f (data_f v') = (next_block w, 0)"
    and c': "capacity_f (data_f v') = 2 * c" and s': "size_f v' = c + 1"
    and h': "heap w' (next_block w) = Some ds" and l': "length ds = 2 * c"
    and low: "\<forall>m<index. ds ! m = ss ! m" and mid: "ds ! index = Live x"
    and shifted: "\<forall>m. index \<le> m \<and> m < c \<longrightarrow> ds ! (m + 1) = ss ! m"
    and high: "\<forall>m. c < m \<and> m < 2 * c \<longrightarrow> ds ! m = Raw"
    using all by simp_all
  let ?new = "take index ss @ [Live x] @ drop index ss"
  have tk: "take (c + 1) ds = ?new"
  proof (rule nth_equalityI)
    show "length (take (c + 1) ds) = length ?new"
      using l' len ic by simp
  next
    fix i assume "i < length (take (c + 1) ds)"
    then have i: "i < c + 1" by simp
    consider "i < index" | "i = index" | "index < i"
      by (rule linorder_cases)
    then show "take (c + 1) ds ! i = ?new ! i"
    proof cases
      case 1
      then show ?thesis
        using low len ic i by (simp add: nth_append)
    next
      case 2
      then show ?thesis
        using mid len ic by (simp add: nth_append)
    next
      case 3
      then obtain m where m: "i = m + 1" "index \<le> m" "m < c"
        using i by (cases i) auto
      have "ds ! (m + 1) = ss ! m"
        using shifted m by blast
      moreover have "?new ! (m + 1) = ss ! m"
        using m len ic by (simp add: nth_append min_def)
      ultimately show ?thesis
        using m by simp
    qed
  qed
  have "list_all is_live ss"
    using live len by (simp add: list_all_length)
  then have "list_all is_live ?new"
    by (auto simp: list_all_iff dest: in_set_takeD in_set_dropD)
  then have lives: "list_all is_live (take (c + 1) ds)"
    unfolding tk .
  have raws: "list_all is_raw (drop (c + 1) ds)"
    using high l' by (simp add: list_all_length)
  have inv': "Vector_invariant w' v'"
    using b' c' s' h' l' nb0 pos lives raws by (simp add: Vector_invariant_def)
  have old: "elements w v = ss"
    using buf hv sz len by (simp add: elements_def)
  have new: "elements w' v' = ?new"
    using b' h' s' tk by (simp add: elements_def)
  have not_end: "(vb, index) \<noteq> Vector_end v"
    using buf sz ic by (simp add: Vector_end_def RawMemory_plus_def)
  have not_less: "\<not> size_f v < capacity_f (data_f v)"
    using full by simp
  have "trace w' = trace w @
           [Allocated (next_block w) (if size_f v = 0 then 1 else size_f v * 2),
            Constructed (next_block w, snd (vb, index) - snd (buffer_f (data_f v)))] @
           relocation_trace T (buffer_f (data_f v))
             (snd (vb, index) - snd (buffer_f (data_f v))) (next_block w, 0) @
           relocation_trace T
             (ptr_add (buffer_f (data_f v)) (snd (vb, index) - snd (buffer_f (data_f v))))
             (size_f v - (snd (vb, index) - snd (buffer_f (data_f v))))
             (next_block w, snd (vb, index) - snd (buffer_f (data_f v)) + 1) @
           release_trace (buffer_f (data_f v))"
    using obj not_end not_less run by (rule Emplace_trace)
  then have tr: "trace w' = trace w @
             [Allocated (next_block w) (2 * c), Constructed (next_block w, index)] @
             relocation_trace T (vb, 0) index (next_block w, 0) @
             relocation_trace T (vb, index) (c - index) (next_block w, index + 1) @
             release_trace (vb, 0)"
    using pos by (simp add: buf sz mult.commute)
  show ?thesis
    unfolding at unfolding old sz buf unfolding ptr_add_pair add_0
    using run o' b' c' s' inv' new tr by blast
qed

section \<open>Properties\<close>

subsection \<open>Emplace at the end position\<close>

text \<open>
  Claim C1 says that \<^verbatim>\<open>Emplace\<close> with \<^verbatim>\<open>pos == end()\<close> appends exactly one
  element. The code does not: on the vector \<open>[1, 2, 3]\<close> of capacity \<open>4\<close>,
  \<^verbatim>\<open>Emplace(end(), 99)\<close> first appends \<open>99\<close> through \<^verbatim>\<open>EmplaceBack\<close>, then runs
  the general insertion at index \<open>3\<close> of the now full vector. The result is
  \<open>[1, 2, 3, 99, 99]\<close> of length \<open>5\<close> and capacity \<open>8\<close>, and the returned position is
  index \<open>3\<close>, not the last index.
\<close>

theorem Emplace_at_end_appends_twice:
  "objects world_123 0 = Some \<lparr>data_f = \<lparr>buffer_f = (3, 0), capacity_f = 4\<rparr>, size_f = 3\<rparr> \<and>
   heap world_123 3 = Some [Live 1, Live 2, Live 3, Raw] \<and>
   Vector_end \<lparr>data_f = \<lparr>buffer_f = (3, 0), capacity_f = 4\<rparr>, size_f = 3\<rparr> = (3, 3) \<and>
   (case Emplace (nothrow_movable never) 0 (3, 3) 99 world_123 of
      (r, w') \<Rightarrow>
        r = Ok (4, 3) \<and>
        objects w' 0 = Some \<lparr>data_f = \<lparr>buffer_f = (4, 0), capacity_f = 8\<rparr>, size_f = 5\<rparr> \<and>
        heap w' 4 = Some [Live 1, Live 2, Live 3, Live 99, Live 99, Raw, Raw, Raw])"
  by code_simp

subsection \<open>Copy assignment from a shorter source\<close>

text \<open>
  Claim C2 says that copy assignment from a shorter source into sufficient capacity
  destroys the surplus live elements \<open>[source.size, target.size)\<close>. The code calls
  \<^verbatim>\<open>std::destroy_n(data_.GetAddress() + size_, size_ - other.size_)\<close>: the range starts
  at the target's old size. With target \<open>[1, 2, 3]\<close> of capacity \<open>4\<close> and source \<open>[7]\<close>,
  the first element is copy-assigned, then the destructor is applied to slot \<open>3\<close>, which is
  raw; the surplus elements at the indices \<open>1\<close> and \<open>2\<close> are still live and the size
  is still \<open>3\<close>.
\<close>

theorem copy_assignment_destroys_past_the_end:
  "objects world_123_7 0 = Some \<lparr>data_f = \<lparr>buffer_f = (3, 0), capacity_f = 4\<rparr>, size_f = 3\<rparr> \<and>
   objects world_123_7 1 = Some \<lparr>data_f = \<lparr>buffer_f = (4, 0), capacity_f = 1\<rparr>, size_f = 1\<rparr> \<and>
   heap world_123_7 3 = Some [Live 1, Live 2, Live 3, Raw] \<and>
   heap world_123_7 4 = Some [Live 7] \<and>
   (case operator_assign_copy (nothrow_movable never) 0 1 world_123_7 of
      (r, w') \<Rightarrow>
        r = Undefined \<and>
        trace w' = trace world_123_7 @ [CopyAssigned (4, 0) (3, 0)] \<and>
        heap w' 3 = Some [Live 7, Live 2, Live 3, Raw] \<and>
        slot_at w' (ptr_add (3, 0) 3) = Some Raw \<and>
        objects w' 0 = Some \<lparr>data_f = \<lparr>buffer_f = (3, 0), capacity_f = 4\<rparr>, size_f = 3\<rparr>)"
  by code_simp

subsection \<open>Emplace with growth: failure while relocating the suffix\<close>

text \<open>
  Claim C3 says that when relocating the suffix fails after the prefix was relocated, the
  elements constructed in the new buffer are destroyed and the vector is left in its prior
  state. The code's handler is \<^verbatim>\<open>std::destroy_n(data_.GetAddress(), index + 1)\<close>, on the
  old buffer. With the full vector \<open>[1, 2]\<close>, \<^verbatim>\<open>Emplace(begin() + 1, 9)\<close> and a copy
  constructor that throws on the suffix: the prefix element was copied to the new block
  \<open>3\<close> and its source, slot \<open>0\<close> of the old block \<open>2\<close>, was destroyed by
  \<^verbatim>\<open>MoveElements\<close>; the handler then destroys that slot a second time. The two
  elements constructed in the new block are never destroyed, and the vector, still of size
  \<open>2\<close> on the old block, has lost its first element.
\<close>

theorem Emplace_suffix_failure_destroys_old_buffer:
  "objects world_12 0 = Some \<lparr>data_f = \<lparr>buffer_f = (2, 0), capacity_f = 2\<rparr>, size_f = 2\<rparr> \<and>
   heap world_12 2 = Some [Live 1, Live 2] \<and>
   (case Emplace (copy_relocated (only_at 8)) 0 (2, 1) 9 world_12 of
      (r, w') \<Rightarrow>
        r = Undefined \<and>
        trace w' = trace world_12 @
          [Allocated 3 4, Constructed (3, 1), CopyConstructed (2, 0) (3, 0), Destroyed (2, 0)] \<and>
        heap w' 3 = Some [Live 1, Live 9, Raw, Raw] \<and>
        heap w' 2 = Some [Raw, Live 2] \<and>
        objects w' 0 = Some \<lparr>data_f = \<lparr>buffer_f = (2, 0), capacity_f = 2\<rparr>, size_f = 2\<rparr>)"
  by code_simp

subsection \<open>EmplaceBack with growth: failure while relocating\<close>

text \<open>
  Claim C4 says that when relocation fails during an append with growth, the freshly
  constructed element is destroyed with the new buffer. \<^verbatim>\<open>EmplaceBack\<close> has no handler,
  and \<^verbatim>\<open>~RawMemory\<close> only deallocates. With the full vector \<open>[1]\<close>, the new element is
  constructed at slot \<open>1\<close> of the new block \<open>2\<close>, the copy of the old element throws, and
  the block is deallocated: the trace has no destructor call for the new element. The
  vector itself is as before.
\<close>

theorem EmplaceBack_failure_leaks_new_element:
  "objects world_1 0 = Some \<lparr>data_f = \<lparr>buffer_f = (1, 0), capacity_f = 1\<rparr>, size_f = 1\<rparr> \<and>
   heap world_1 1 = Some [Live 1] \<and>
   (case EmplaceBack (copy_relocated (only_at 4)) 0 2 world_1 of
      (r, w') \<Rightarrow>
        r = Throw element_failure \<and>
        trace w' = trace world_1 @ [Allocated 2 2, Constructed (2, 1), Deallocated 2] \<and>
        heap w' 2 = None \<and>
        heap w' 1 = Some [Live 1] \<and>
        objects w' 0 = Some \<lparr>data_f = \<lparr>buffer_f = (1, 0), capacity_f = 1\<rparr>, size_f = 1\<rparr>)"
  by code_simp

subsection \<open>Move assignment\<close>

text \<open>
  Claim C5 says that move assignment destroys the target's previous elements and
  deallocates its previous block. \<^verbatim>\<open>RawMemory::operator=(RawMemory&&)\<close> overwrites
  \<^verbatim>\<open>buffer_\<close>, and \<^verbatim>\<open>Vector::operator=(Vector&&)\<close> calls no destructor. With
  target \<open>[1, 2, 3]\<close> on block \<open>3\<close> and source \<open>[7]\<close> on block \<open>4\<close>: the target takes
  over block \<open>4\<close>, the source is empty, nothing is added to the trace, and block \<open>3\<close> is
  still allocated with its three live elements, owned by no vector.
\<close>

theorem move_assignment_releases_nothing:
  "objects world_123_7 0 = Some \<lparr>data_f = \<lparr>buffer_f = (3, 0), capacity_f = 4\<rparr>, size_f = 3\<rparr> \<and>
   objects world_123_7 1 = Some \<lparr>data_f = \<lparr>buffer_f = (4, 0), capacity_f = 1\<rparr>, size_f = 1\<rparr> \<and>
   (case operator_assign_move 0 1 world_123_7 of
      (r, w') \<Rightarrow>
        r = Ok () \<and>
        objects w' 0 = Some \<lparr>data_f = \<lparr>buffer_f = (4, 0), capacity_f = 1\<rparr>, size_f = 1\<rparr> \<and>
        objects w' 1 = Some \<lparr>data_f = \<lparr>buffer_f = (0, 0), capacity_f = 0\<rparr>, size_f = 0\<rparr> \<and>
        trace w' = trace world_123_7 \<and>
        heap w' 3 = Some [Live 1, Live 2, Live 3, Raw] \<and>
        heap w' 4 = Some [Live 7])"
  by code_simp

subsection \<open>The invariant across operations\<close>

text \<open>
  Claim C9 says that every public operation preserves the invariant, whether it completes
  or fails. \<^verbatim>\<open>Emplace(begin(), 9)\<close> on the full vector \<open>[1, 2]\<close>, with a copy
  constructor that throws on the second element of the suffix, propagates the exception
  after its handler has destroyed slot \<open>0\<close> of the old buffer: the vector still has size
  \<open>2\<close>, and its slot \<open>0\<close> holds no object.
\<close>

theorem Emplace_failure_breaks_invariant:
  "objects world_12 0 = Some \<lparr>data_f = \<lparr>buffer_f = (2, 0), capacity_f = 2\<rparr>, size_f = 2\<rparr> \<and>
   Vector_invariant world_12 \<lparr>data_f = \<lparr>buffer_f = (2, 0), capacity_f = 2\<rparr>, size_f = 2\<rparr> \<and>
   (case Emplace (copy_relocated (only_at 8)) 0 (2, 0) 9 world_12 of
      (r, w') \<Rightarrow>
        r = Throw element_failure \<and>
        objects w' 0 = Some \<lparr>data_f = \<lparr>buffer_f = (2, 0), capacity_f = 2\<rparr>, size_f = 2\<rparr> \<and>
        heap w' 2 = Some [Raw, Live 2] \<and>
        \<not> Vector_invariant w' \<lparr>data_f = \<lparr>buffer_f = (2, 0), capacity_f = 2\<rparr>, size_f = 2\<rparr>)"
  by code_simp

subsection \<open>Copy self-assignment\<close>

text \<open>
  Claim C10: copy self-assignment \<^verbatim>\<open>v = v\<close> returns at once. The world is unchanged:
  the vector's fields, every block, and the trace, so no element is assigned,
  constructed or destroyed.
\<close>

theorem copy_self_assignment_is_noop:
  "operator_assign_copy T this this w = (Ok (), w)"
  by (simp add: operator_assign_copy_def ret_def)

subsection \<open>Append with growth\<close>

text \<open>
  Claim C6: on a vector whose size equals its capacity \<open>c\<close> (also \<open>c = 0\<close>),
  \<^verbatim>\<open>EmplaceBack\<close> allocates a new block of capacity \<open>max 1 (2 * c)\<close> and, when neither the
  allocation nor a constructor throws, returns with that capacity and size \<open>c + 1\<close>. The
  vector then lives on the block the allocator handed out, the invariant holds again, the
  old elements are unchanged in order and the new element is the last one; the result is
  the address of the new element.
\<close>

theorem EmplaceBack_growth:
  assumes obj: "objects w this = Some v"
    and inv: "Vector_invariant w v"
    and full: "size_f v = capacity_f (data_f v)"
    and fresh: "fresh_block w"
    and nofail: "\<forall>t\<ge>ticks w. \<not> throws_at T t"
  shows "\<exists>w' v'. EmplaceBack T this x w = (Ok (next_block w, size_f v), w') \<and>
           objects w' this = Some v' \<and>
           buffer_f (data_f v') = (next_block w, 0) \<and>
           capacity_f (data_f v') = max 1 (2 * capacity_f (data_f v)) \<and>
           size_f v' = capacity_f (data_f v) + 1 \<and>
           size_f v' \<le> capacity_f (data_f v') \<and>
           Vector_invariant w' v' \<and>
           elements w' v' = elements w v @ [Live x]"
proof (cases "capacity_f (data_f v) = 0")
  case True
  have sz: "size_f v = 0" and buf: "buffer_f (data_f v) = (0, 0)"
    using inv True full by (simp_all add: Vector_invariant_def nullptr_def)
  from EmplaceBack_growth_from_empty [OF obj True sz buf fresh nofail, of x]
  obtain w' v' where
    run: "EmplaceBack T this x w = (Ok (next_block w, 0), w')" and
    o': "objects w' this = Some v'" and
    b': "buffer_f (data_f v') = (next_block w, 0)" and
    c': "capacity_f (data_f v') = 1" and s': "size_f v' = 1" and
    h': "heap w' (next_block w) = Some [Live x]"
    by blast
  have nb0: "next_block w \<noteq> 0" and hnb: "heap w (next_block w) = None"
    using fresh by (simp_all add: fresh_block_def)
  have inv': "Vector_invariant w' v'"
    using b' c' s' h' nb0 by (simp add: Vector_invariant_def)
  have old: "elements w v = []"
    using sz by (simp add: elements_def split: option.splits)
  have new: "elements w' v' = [Live x]"
    using b' s' h' by (simp add: elements_def)
  show ?thesis
    using run o' b' c' s' inv' old new True sz by simp
next
  case False
  define c where "c = capacity_f (data_f v)"
  have pos: "0 < c" and cap: "capacity_f (data_f v) = c" and sz: "size_f v = c"
    using False full by (simp_all add: c_def)
  obtain vb where buf: "buffer_f (data_f v) = (vb, 0)" and vb: "vb \<noteq> 0"
    using inv False by (cases "buffer_f (data_f v)") (simp add: Vector_invariant_def)
  obtain ss where hv: "heap w vb = Some ss" and len: "length ss = c"
    and all_live: "list_all is_live (take c ss)"
    using inv False buf cap sz
    by (auto simp: Vector_invariant_def split: option.splits)
  have live: "\<forall>m<c. is_live (ss ! m)"
    using all_live len by (simp add: list_all_length)
  from EmplaceBack_growth_full [OF obj cap sz pos buf vb hv len live fresh nofail, of x]
  obtain w' v' ds where all:
    "EmplaceBack T this x w = (Ok (next_block w, c), w') \<and>
     objects w' this = Some v' \<and>
     buffer_f (data_f v') = (next_block w, 0) \<and>
     capacity_f (data_f v') = 2 * c \<and> size_f v' = c + 1 \<and>
     heap w' (next_block w) = Some ds \<and> length ds = 2 * c \<and>
     (\<forall>m<c. ds ! m = ss ! m) \<and> ds ! c = Live x \<and>
     (\<forall>m. c < m \<and> m < 2 * c \<longrightarrow> ds ! m = Raw)"
    by (elim exE) (rule that)
  have run: "EmplaceBack T this x w = (Ok (next_block w, c), w')"
    and o': "objects w' this = Some v'"
    and b': "buffer_f (data_f v') = (next_block w, 0)"
    and c': "capacity_f (data_f v') = 2 * c" and s': "size_f v' = c + 1"
    and h': "heap w' (next_block w) = Some ds" and l': "length ds = 2 * c"
    and low: "\<forall>m<c. ds ! m = ss ! m" and mid: "ds ! c = Live x"
    and high: "\<forall>m. c < m \<and> m < 2 * c \<longrightarrow> ds ! m = Raw"
    using all by simp_all
  have nb0: "next_block w \<noteq> 0"
    using fresh by (simp add: fresh_block_def)
  have tk: "take (c + 1) ds = ss @ [Live x]"
  proof (rule nth_equalityI)
    show "length (take (c + 1) ds) = length (ss @ [Live x])"
      using l' len pos by simp
  next
    fix i assume "i < length (take (c + 1) ds)"
    then have i: "i < c + 1" by simp
    show "take (c + 1) ds ! i = (ss @ [Live x]) ! i"
    proof (cases "i < c")
      case True
      then show ?thesis using low len i by (simp add: nth_append)
    next
      case False
      then have "i = c" using i by simp
      then show ?thesis using mid len by (simp add: nth_append)
    qed
  qed
  have lives: "list_all is_live (take (c + 1) ds)"
    unfolding tk using live len by (auto simp: list_all_length nth_append)
  have raws: "list_all is_raw (drop (c + 1) ds)"
    using high l' by (simp add: list_all_length)
  have inv': "Vector_invariant w' v'"
    using b' c' s' h' l' nb0 pos lives raws by (simp add: Vector_invariant_def)
  have old: "elements w v = ss"
    using buf hv sz len by (simp add: elements_def)
  have new: "elements w' v' = ss @ [Live x]"
    using b' h' s' tk by (simp add: elements_def)
  have mx: "max 1 (2 * c) = 2 * c"
    using pos by simp
  show ?thesis
    using run o' b' c' s' inv' old new cap sz mx by simp
qed

text \<open>Appending \<open>3\<close> to the full vector \<open>[1, 2]\<close>.\<close>

theorem EmplaceBack_growth_witness:
  "objects world_full_12 0 = Some \<lparr>data_f = \<lparr>buffer_f = (2, 0), capacity_f = 2\<rparr>, size_f = 2\<rparr> \<and>
   heap world_full_12 2 = Some [Live 1, Live 2] \<and>
   (\<exists>w' v'. EmplaceBack (nothrow_movable never) 0 3 world_full_12 = (Ok (3, 2), w') \<and>
      objects w' 0 = Some v' \<and> buffer_f (data_f v') = (3, 0) \<and>
      capacity_f (data_f v') = 4 \<and> size_f v' = 3 \<and>
      size_f v' \<le> capacity_f (data_f v') \<and>
      Vector_invariant w' v' \<and> elements w' v' = [Live 1, Live 2, Live 3])"
proof -
  let ?v = "\<lparr>data_f = \<lparr>buffer_f = (2, 0), capacity_f = 2\<rparr>, size_f = 2\<rparr>"
  have obj: "objects world_full_12 0 = Some ?v" by code_simp
  have blk: "heap world_full_12 2 = Some [Live 1, Live 2]" by code_simp
  have inv: "Vector_invariant world_full_12 ?v" by code_simp
  have full: "size_f ?v = capacity_f (data_f ?v)" by simp
  have fresh: "fresh_block world_full_12" by code_simp
  have nb: "next_block world_full_12 = 3" by code_simp
  have el: "elements world_full_12 ?v = [Live 1, Live 2]" by code_simp
  have nofail: "\<forall>t\<ge>ticks world_full_12. \<not> throws_at (nothrow_movable never) t"
    by (simp add: nothrow_movable_def never_def)
  show ?thesis
    using obj blk EmplaceBack_growth [OF obj inv full fresh nofail, of 3]
    by (simp add: nb el)
qed

subsection \<open>The relocation policy\<close>




subsection \<open>Copy assignment into insufficient capacity\<close>

text \<open>
  Claim C8: copy assignment \<^verbatim>\<open>target = source\<close> with the target's capacity smaller than
  the source's size builds a temporary copy of the source on a new block and swaps it in.
  For two distinct vectors that satisfy the invariant and own different blocks there are
  exactly two outcomes. Either the assignment returns: the target then lives on the new
  block with size and capacity equal to the source's size and the source's elements in
  order, and the source is unchanged; this happens when none of the allocation and the
  element copies throws. Or the assignment throws: then every vector object and every block
  is as before the call; this happens when the allocation or one of the copies throws.
  Undefined behaviour does not occur.
\<close>

theorem copy_assignment_strong_guarantee:
  assumes ne: "this \<noteq> other"
    and ov: "objects w this = Some v" and ou: "objects w other = Some u"
    and iv: "Vector_invariant w v" and iu: "Vector_invariant w u"
    and distinct: "fst (buffer_f (data_f v)) \<noteq> fst (buffer_f (data_f u))"
    and fresh: "fresh_block w"
    and small: "capacity_f (data_f v) < size_f u"
  shows "(\<exists>w' v'. operator_assign_copy T this other w = (Ok (), w') \<and>
            objects w' this = Some v' \<and>
            buffer_f (data_f v') = (next_block w, 0) \<and>
            size_f v' = size_f u \<and> capacity_f (data_f v') = size_f u \<and>
            Vector_invariant w' v' \<and> elements w' v' = elements w u \<and>
            objects w' other = Some u \<and> Vector_invariant w' u \<and>
            elements w' u = elements w u \<and>
            (\<forall>t. ticks w \<le> t \<and> t \<le> ticks w + size_f u \<longrightarrow> \<not> throws_at T t)) \<or>
         (\<exists>e w'. operator_assign_copy T this other w = (Throw e, w') \<and>
            objects w' = objects w \<and> heap w' = heap w \<and>
            (\<exists>t. ticks w \<le> t \<and> t \<le> ticks w + size_f u \<and> throws_at T t))"
proof -
  define n where "n = size_f u"
  define nb where "nb = next_block w"
  have pos: "0 < n" and sz: "size_f u = n"
    using small by (simp_all add: n_def)
  have capu: "capacity_f (data_f u) \<noteq> 0" and nle: "n \<le> capacity_f (data_f u)"
    using iu pos by (auto simp: Vector_invariant_def n_def)
  obtain ob where buf: "buffer_f (data_f u) = (ob, 0)" and ob: "ob \<noteq> 0"
    using iu capu by (cases "buffer_f (data_f u)") (simp add: Vector_invariant_def)
  obtain ss where hu: "heap w ob = Some ss" and len: "length ss = capacity_f (data_f u)"
    and all_live: "list_all is_live (take n ss)"
    using iu capu buf by (auto simp: Vector_invariant_def n_def split: option.splits)
  have le: "n \<le> length ss"
    using nle len by simp
  have live: "\<forall>m<n. is_live (ss ! m)"
    using all_live le by (simp add: list_all_length)
  have nb0: "nb \<noteq> 0" and hnb: "heap w nb = None"
    using fresh by (simp_all add: fresh_block_def nb_def)
  have ob_nb: "ob \<noteq> nb"
    using hu hnb by auto
  have start: "operator_assign_copy T this other w =
      seq (Vector_copy T u) (\<lambda>new_vector.
        case Vector_Swap v new_vector of
          (v', new_vector') \<Rightarrow>
            seq (put_object this v') (\<lambda>_. Vector_destroy new_vector')) w"
    using ne ov ou small
    by (simp add: operator_assign_copy_def with_object_def RawMemory_Capacity_def)
  from Vector_copy_outcomes [OF buf hu sz pos le live fresh, of T]
  show ?thesis
  proof (elim disjE exE)
    fix e w'
    assume bad: "Vector_copy T u w = (Throw e, w') \<and>
        heap w' = heap w \<and> objects w' = objects w \<and>
        (\<exists>t. ticks w \<le> t \<and> t \<le> ticks w + n \<and> throws_at T t)"
    then have "operator_assign_copy T this other w = (Throw e, w')"
      by (simp add: start seq_def)
    then show ?thesis
      using bad unfolding n_def by blast
  next
    fix w1
    assume ok: "Vector_copy T u w =
          (Ok \<lparr>data_f = \<lparr>buffer_f = (next_block w, 0), capacity_f = n\<rparr>, size_f = n\<rparr>, w1) \<and>
        heap w1 (next_block w) = Some (take n ss) \<and>
        (\<forall>b. b \<noteq> next_block w \<longrightarrow> heap w1 b = heap w b) \<and>
        objects w1 = objects w \<and>
        (\<forall>t. ticks w \<le> t \<and> t \<le> ticks w + n \<longrightarrow> \<not> throws_at T t)"
    define v' where "v' = \<lparr>data_f = \<lparr>buffer_f = (nb, 0), capacity_f = n\<rparr>, size_f = n\<rparr>"
    define old where "old = \<lparr>data_f = data_f v, size_f = size_f v\<rparr>"
    define w2 where "w2 = w1\<lparr>objects := (objects w1)(this \<mapsto> v')\<rparr>"
    have swap: "Vector_Swap v v' = (v', old)"
      by (simp add: Vector_Swap_def RawMemory_Swap_def v'_def old_def)
    have old_v: "old = v"
      by (simp add: old_def)
    have vb_nb: "fst (buffer_f (data_f v)) \<noteq> nb"
    proof (cases "capacity_f (data_f v) = 0")
      case True
      then show ?thesis using iv nb0 by (simp add: Vector_invariant_def nullptr_def)
    next
      case False
      then have "heap w (fst (buffer_f (data_f v))) \<noteq> None"
        using iv by (auto simp: Vector_invariant_def split: option.splits)
      then show ?thesis using hnb by auto
    qed
    have keep_v: "heap w2 (fst (buffer_f (data_f v))) = heap w (fst (buffer_f (data_f v)))"
      using ok vb_nb by (simp add: w2_def nb_def)
    have inv_old: "Vector_invariant w2 old"
      unfolding old_v using iv Vector_invariant_cong [OF keep_v] by simp
    from Vector_destroy_ok [OF inv_old] obtain w3 where
      destroy: "Vector_destroy old w2 = (Ok (), w3)" and
      o3: "objects w3 = objects w2" and
      frame3: "\<forall>b. b \<noteq> fst (buffer_f (data_f v)) \<longrightarrow> heap w3 b = heap w2 b"
      unfolding old_v by blast
    have run: "operator_assign_copy T this other w = (Ok (), w3)"
      using ok destroy swap
      by (simp add: start seq_def put_object_def w2_def v'_def nb_def old_v)
    have this': "objects w3 this = Some v'"
      by (simp add: o3 w2_def)
    have other': "objects w3 other = Some u"
      using ne ou ok by (simp add: o3 w2_def)
    have hnew: "heap w3 nb = Some (take n ss)"
      using frame3 vb_nb ok by (simp add: w2_def nb_def)
    have hsrc: "heap w3 ob = heap w ob"
      using frame3 distinct buf ob_nb ok by (simp add: w2_def nb_def)
    have fields: "buffer_f (data_f v') = (nb, 0)" "size_f v' = n" "capacity_f (data_f v') = n"
      by (simp_all add: v'_def)
    have inv': "Vector_invariant w3 v'"
      using fields hnew pos nb0 le all_live by (simp add: Vector_invariant_def)
    have el': "elements w3 v' = elements w u"
      using fields hnew buf hu sz by (simp add: elements_def)
    have hsrc': "heap w3 (fst (buffer_f (data_f u))) = heap w (fst (buffer_f (data_f u)))"
      using hsrc buf by simp
    have inv_u: "Vector_invariant w3 u"
      using iu Vector_invariant_cong [OF hsrc'] by simp
    have el_u: "elements w3 u = elements w u"
      using hsrc' by (rule elements_cong)
    have nothrow: "\<forall>t. ticks w \<le> t \<and> t \<le> ticks w + n \<longrightarrow> \<not> throws_at T t"
      using ok by simp
    from run this' fields inv' el' other' inv_u el_u nothrow show ?thesis
      unfolding n_def nb_def by blast
  qed
qed

text \<open>
  The target \<open>[1]\<close> of capacity \<open>1\<close> and the source \<open>[7, 8]\<close>: when the copy of the second
  element throws, the assignment throws and neither a vector nor a block has changed; when
  nothing throws, the target holds \<open>[7, 8]\<close>.
\<close>

theorem copy_assignment_strong_guarantee_witness:
  "objects world_1_78 0 = Some \<lparr>data_f = \<lparr>buffer_f = (1, 0), capacity_f = 1\<rparr>, size_f = 1\<rparr> \<and>
   objects world_1_78 1 = Some \<lparr>data_f = \<lparr>buffer_f = (3, 0), capacity_f = 2\<rparr>, size_f = 2\<rparr> \<and>
   (\<exists>w'. operator_assign_copy (copy_relocated (only_at 9)) 0 1 world_1_78 =
            (Throw element_failure, w') \<and>
          objects w' = objects world_1_78 \<and> heap w' = heap world_1_78) \<and>
   (\<exists>w' v'. operator_assign_copy (copy_relocated never) 0 1 world_1_78 = (Ok (), w') \<and>
          objects w' 0 = Some v' \<and> size_f v' = 2 \<and> capacity_f (data_f v') = 2 \<and>
          Vector_invariant w' v' \<and> elements w' v' = [Live 7, Live 8] \<and>
          objects w' 1 = Some \<lparr>data_f = \<lparr>buffer_f = (3, 0), capacity_f = 2\<rparr>, size_f = 2\<rparr>)"
proof -
  let ?v = "\<lparr>data_f = \<lparr>buffer_f = (1, 0), capacity_f = 1\<rparr>, size_f = 1\<rparr>"
  let ?u = "\<lparr>data_f = \<lparr>buffer_f = (3, 0), capacity_f = 2\<rparr>, size_f = 2\<rparr>"
  let ?bad = "operator_assign_copy (copy_relocated (only_at 9)) 0 1 world_1_78"
  let ?good = "operator_assign_copy (copy_relocated never) 0 1 world_1_78"
  have ne: "(0::nat) \<noteq> 1" by simp
  have ov: "objects world_1_78 0 = Some ?v" by code_simp
  have ou: "objects world_1_78 1 = Some ?u" by code_simp
  have iv: "Vector_invariant world_1_78 ?v" by code_simp
  have iu: "Vector_invariant world_1_78 ?u" by code_simp
  have distinct: "fst (buffer_f (data_f ?v)) \<noteq> fst (buffer_f (data_f ?u))" by simp
  have fresh: "fresh_block world_1_78" by code_simp
  have small: "capacity_f (data_f ?v) < size_f ?u" by simp
  have tk: "ticks world_1_78 = 7" by code_simp
  have el: "elements world_1_78 ?u = [Live 7, Live 8]" by code_simp
  have bad_out: "fst ?bad = Throw element_failure" by code_simp
  have "\<not> (\<forall>t. ticks world_1_78 \<le> t \<and> t \<le> ticks world_1_78 + size_f ?u \<longrightarrow>
            \<not> throws_at (copy_relocated (only_at 9)) t)"
    by (simp add: tk copy_relocated_def only_at_def)
  with copy_assignment_strong_guarantee
    [OF ne ov ou iv iu distinct fresh small, of "copy_relocated (only_at 9)"]
  obtain e w' where bad: "?bad = (Throw e, w')"
    "objects w' = objects world_1_78" "heap w' = heap world_1_78"
    by blast
  have "e = element_failure"
    using bad(1) bad_out by simp
  then have first: "\<exists>w'. ?bad = (Throw element_failure, w') \<and>
      objects w' = objects world_1_78 \<and> heap w' = heap world_1_78"
    using bad by blast
  have "\<not> (\<exists>t. ticks world_1_78 \<le> t \<and> t \<le> ticks world_1_78 + size_f ?u \<and>
            throws_at (copy_relocated never) t)"
    by (simp add: copy_relocated_def never_def)
  with copy_assignment_strong_guarantee
    [OF ne ov ou iv iu distinct fresh small, of "copy_relocated never"]
  obtain w'' v' where good: "?good = (Ok (), w'')" "objects w'' 0 = Some v'"
    "size_f v' = size_f ?u" "capacity_f (data_f v') = size_f ?u"
    "Vector_invariant w'' v'" "elements w'' v' = elements world_1_78 ?u"
    "objects w'' 1 = Some ?u"
    by blast
  then have second: "\<exists>w' v'. ?good = (Ok (), w') \<and>
      objects w' 0 = Some v' \<and> size_f v' = 2 \<and> capacity_f (data_f v') = 2 \<and>
      Vector_invariant w' v' \<and> elements w' v' = [Live 7, Live 8] \<and>
      objects w' 1 = Some ?u"
    using el by (intro exI [of _ w''] exI [of _ v']) simp
  show ?thesis
    using ov ou first second by simp
qed
end
